theory Spec2Isabelle
  imports Main "HOL-Library.AList" "HOL-Library.Sublist" "HOL-Library.Multiset"
begin

section \<open>JavaScript values\<close>

text \<open>
  The values that travel through the graph store and through the \<open>Post\<close> objects of the
  hooks: \<open>undefined\<close>, \<open>null\<close>, booleans, numbers (timestamps, as integers), strings and
  plain objects. An object is an association list from property names to values; the
  first binding of a name is the one that counts.
\<close>

datatype gval = VUndef | VNull | VBool bool | VNum int | VStr string
  | VObj "(string \<times> gval) list"

type_synonym jsobj = "(string \<times> gval) list"

text \<open>JavaScript truthiness (\<open>!!v\<close>).\<close>

fun truthy :: "gval \<Rightarrow> bool" where
  "truthy VUndef = False"
| "truthy VNull = False"
| "truthy (VBool b) = b"
| "truthy (VNum n) = (n \<noteq> 0)"
| "truthy (VStr s) = (s \<noteq> [])"
| "truthy (VObj fs) = True"

text \<open>\<open>typeof v === 'object'\<close> (true of \<open>null\<close> as well) and \<open>typeof v === 'string'\<close>.\<close>

fun typeofObject :: "gval \<Rightarrow> bool" where
  "typeofObject VNull = True"
| "typeofObject (VObj fs) = True"
| "typeofObject v = False"

fun typeofString :: "gval \<Rightarrow> bool" where
  "typeofString (VStr s) = True"
| "typeofString v = False"

text \<open>\<open>o[k]\<close> on an object, \<open>Object.keys(o)\<close>, and \<open>v.k\<close> on an arbitrary value.\<close>

definition objGet :: "jsobj \<Rightarrow> string \<Rightarrow> gval" where
  "objGet ob k = (case map_of ob k of None \<Rightarrow> VUndef | Some v \<Rightarrow> v)"

definition objKeys :: "jsobj \<Rightarrow> string list" where
  "objKeys ob = remdups (map fst ob)"

fun propOf :: "gval \<Rightarrow> string \<Rightarrow> gval" where
  "propOf (VObj fs) k = objGet fs k"
| "propOf v k = VUndef"

text \<open>\<open>key.startsWith(p)\<close>.\<close>

definition startsWith :: "string \<Rightarrow> string \<Rightarrow> bool" where
  "startsWith key p = prefix p key"

text \<open>\<open>const { _, ...rest } = data\<close>: the object without its \<open>_\<close> property.\<close>

definition stripMeta :: "jsobj \<Rightarrow> jsobj" where
  "stripMeta ob = filter (\<lambda>kv. fst kv \<noteq> ''_'') ob"

section \<open>The graph store\<close>

text \<open>
  The store is the external graph database, taken at the boundary the specification
  gives it: it is path-addressable, \<open>gun.get(a).get(b)\<close> names a path under the public
  graph and \<open>gun.user().get(a)\<close> a path under the authenticated user's own graph; \<open>put\<close>
  overwrites the value at a path, \<open>once\<close> reads the local copy (\<open>undefined\<close> when nothing
  was ever put there), and \<open>map().once\<close> enumerates the entries directly below a path,
  tombstones included.
\<close>

datatype root = GunRoot | UserRoot string

type_synonym path = "root \<times> string list"

type_synonym store = "(path \<times> gval) list"

definition gun :: path where
  "gun = (GunRoot, [])"

definition gunUser :: "string \<Rightarrow> path" where
  "gunUser pub = (UserRoot pub, [])"

definition gunGet :: "path \<Rightarrow> string \<Rightarrow> path" where
  "gunGet p k = (fst p, snd p @ [k])"

definition gunOnce :: "store \<Rightarrow> path \<Rightarrow> gval" where
  "gunOnce s p = (case map_of s p of None \<Rightarrow> VUndef | Some v \<Rightarrow> v)"

definition isChildOf :: "path \<Rightarrow> path \<Rightarrow> bool" where
  "isChildOf p q = (fst q = fst p \<and> snd q \<noteq> [] \<and> butlast (snd q) = snd p)"

definition gunMapOnce :: "store \<Rightarrow> path \<Rightarrow> (string \<times> gval) list" where
  "gunMapOnce s p =
     map (\<lambda>qv. (last (snd (fst qv)), snd qv))
       (filter (\<lambda>qv. isChildOf p (fst qv)) (AList.clearjunk s))"

text \<open>
  A statement either completes with a value or throws; the store it leaves behind is
  returned in both cases, so a write that happened before a throw stays written.
\<close>

datatype 'a completion = Done 'a | Thrown

text \<open>
  Modelled from the spec: \<open>getCurrentUserPub\<close> of \<open>utils/gunHelpers\<close> is not among the
  sources. The identity provider "exposes the current authenticated public key and a
  presence check", so the helper is the field \<open>getCurrentUserPub\<close> of the environment,
  holding the key it returns, \<open>None\<close> when it returns nothing.

  The other fields of the environment of one call: \<open>gunPresent\<close> is \<open>shogunCore?.gun\<close>,
  \<open>isLoggedIn\<close> the flag of \<open>useShogun()\<close>, \<open>userIsPub\<close> is \<open>gun.user().is.pub\<close> (\<open>None\<close> when
  \<open>user\<close>, \<open>user.is\<close> or the key is missing), \<open>seaPresent\<close> is \<open>gun.SEA\<close>, \<open>putThrows\<close> says at
  which paths a \<open>put\<close> throws, and \<open>dateNow i\<close> is what the \<open>i\<close>-th call of \<open>Date.now()\<close> in
  the operation returns.
\<close>

record env =
  gunPresent :: bool
  isLoggedIn :: bool
  getCurrentUserPub :: "string option"
  userIsPub :: "string option"
  seaPresent :: bool
  putThrows :: "path \<Rightarrow> bool"
  dateNow :: "nat \<Rightarrow> int"

definition gunPut :: "env \<Rightarrow> path \<Rightarrow> gval \<Rightarrow> store \<Rightarrow> unit completion \<times> store" where
  "gunPut e p v s = (if putThrows e p then (Thrown, s) else (Done (), AList.update p v s))"

fun thenDo :: "unit completion \<times> store \<Rightarrow> (store \<Rightarrow> 'a completion \<times> store)
    \<Rightarrow> 'a completion \<times> store" where
  "thenDo (Done u, s) k = k s"
| "thenDo (Thrown, s) k = (Thrown, s)"

text \<open>\<open>try { body } catch (err) { return h }\<close> with a handler that only logs and returns.\<close>

fun tryCatch :: "'a completion \<times> store \<Rightarrow> 'a \<Rightarrow> 'a completion \<times> store" where
  "tryCatch (Done r, s) h = (Done r, s)"
| "tryCatch (Thrown, s) h = (Done h, s)"

text \<open>A key the guards \<open>!userPub\<close> and \<open>user.is.pub\<close> let through: present and non-empty.\<close>

fun truthyPub :: "string option \<Rightarrow> string option" where
  "truthyPub None = None"
| "truthyPub (Some u) = (if u = [] then None else Some u)"

section \<open>usePostInteractions\<close>

record actionResult =
  success :: bool
  error :: "string option"

definition succeeded :: actionResult where
  "succeeded = \<lparr>success = True, error = None\<rparr>"

definition failed :: "string \<Rightarrow> actionResult" where
  "failed msg = \<lparr>success = False, error = Some msg\<rparr>"

definition appName :: string where
  "appName = ''shogun-mistodon-clone-v1''"

definition appLikes :: "string \<Rightarrow> path" where
  "appLikes postId = gunGet (gunGet (gunGet (gunGet gun appName) ''posts'') postId) ''likes''"

definition mirrorLikes :: "string \<Rightarrow> path" where
  "mirrorLikes postId =
     gunGet (gunGet (gunGet (gunGet gun ''interactions'') ''posts'') postId) ''likes''"

definition appReposts :: "string \<Rightarrow> path" where
  "appReposts postId = gunGet (gunGet (gunGet (gunGet gun appName) ''posts'') postId) ''reposts''"

definition mirrorReposts :: "string \<Rightarrow> path" where
  "mirrorReposts postId =
     gunGet (gunGet (gunGet (gunGet gun ''interactions'') ''posts'') postId) ''reposts''"

text \<open>The two writes of the \<open>try\<close> block of \<open>likePost\<close> and \<open>unlikePost\<close>, for the value put.\<close>

definition likeWrites :: "env \<Rightarrow> string \<Rightarrow> string \<Rightarrow> gval \<Rightarrow> store
    \<Rightarrow> actionResult completion \<times> store" where
  "likeWrites e postId pub v s =
     thenDo (gunPut e (gunGet (appLikes postId) pub) v s) (\<lambda>s1.
     thenDo (gunPut e (gunGet (mirrorLikes postId) pub) v s1) (\<lambda>s2.
     (Done succeeded, s2)))"

definition likePost :: "env \<Rightarrow> string \<Rightarrow> store \<Rightarrow> actionResult completion \<times> store" where
  "likePost e postId s =
     (if \<not> gunPresent e \<or> \<not> isLoggedIn e then (Done (failed ''Not authenticated''), s)
      else case truthyPub (getCurrentUserPub e) of
        None \<Rightarrow>
          (case truthyPub (userIsPub e) of
             Some actualUserPub \<Rightarrow>
               tryCatch (likeWrites e postId actualUserPub (VBool True) s)
                 (failed ''Failed to like post'')
           | None \<Rightarrow> (Done (failed ''User not authenticated''), s))
      | Some userPub \<Rightarrow>
          tryCatch (likeWrites e postId userPub (VBool True) s) (failed ''Failed to like post''))"

definition unlikePost :: "env \<Rightarrow> string \<Rightarrow> store \<Rightarrow> actionResult completion \<times> store" where
  "unlikePost e postId s =
     (if \<not> gunPresent e \<or> \<not> isLoggedIn e then (Done (failed ''Not authenticated''), s)
      else case truthyPub (getCurrentUserPub e) of
        None \<Rightarrow>
          (case truthyPub (userIsPub e) of
             Some actualUserPub \<Rightarrow>
               tryCatch (likeWrites e postId actualUserPub VNull s)
                 (failed ''Failed to unlike post'')
           | None \<Rightarrow> (Done (failed ''User not authenticated''), s))
      | Some userPub \<Rightarrow>
          tryCatch (likeWrites e postId userPub VNull s) (failed ''Failed to unlike post''))"



text \<open>
  The callback of the \<open>once\<close> reads in \<open>repost\<close>: an object is kept without its \<open>_\<close>
  property, anything else resolves to \<open>null\<close>.
\<close>

fun readPostData :: "gval \<Rightarrow> jsobj option" where
  "readPostData (VObj fs) = Some (stripMeta fs)"
| "readPostData v = None"

text \<open>
  The soul read from \<open>#posts\<close>: \<open>resolve(soul && typeof soul === 'string' ? soul : null)\<close>
  followed by \<open>if (postSoul)\<close>.
\<close>

fun readSoul :: "gval \<Rightarrow> string option" where
  "readSoul (VStr k) = (if k = [] then None else Some k)"
| "readSoul v = None"

definition resolveOriginalPost :: "env \<Rightarrow> string \<Rightarrow> store \<Rightarrow> jsobj option" where
  "resolveOriginalPost e postId s =
     (let viaHash =
        (if seaPresent e then
           (case readSoul (gunOnce s (gunGet (gunGet gun ''#posts'') postId)) of
              Some postSoul \<Rightarrow> readPostData (gunOnce s (gunGet gun postSoul))
            | None \<Rightarrow> None)
         else None)
      in case viaHash of
           Some originalPost \<Rightarrow> Some originalPost
         | None \<Rightarrow> readPostData (gunOnce s (gunGet (gunGet (gunGet gun appName) ''posts'') postId)))"

text \<open>
  \<open>let userPub = getCurrentUserPub(gun); if (!userPub && user && user.is && user.is.pub)
  userPub = user.is.pub\<close>.
\<close>

definition resolvedPub :: "env \<Rightarrow> string option" where
  "resolvedPub e =
     (case truthyPub (getCurrentUserPub e) of
        Some u \<Rightarrow> Some u
      | None \<Rightarrow> truthyPub (userIsPub e))"

definition repostEntry :: "string \<Rightarrow> gval \<Rightarrow> gval" where
  "repostEntry postId repostTimestamp =
     VObj [(''id'', VStr postId), (''timestamp'', repostTimestamp), (''reposted'', VBool True)]"

definition userPostsIndex :: "string \<Rightarrow> string \<Rightarrow> path" where
  "userPostsIndex userPub postId =
     gunGet (gunGet (gunGet (gunGet gun ''users'') userPub) ''posts'') postId"

definition ownPostsIndex :: "string \<Rightarrow> string \<Rightarrow> path" where
  "ownPostsIndex ownPub postId = gunGet (gunGet (gunUser ownPub) ''posts'') postId"

definition repostBody :: "env \<Rightarrow> string \<Rightarrow> string \<Rightarrow> string \<Rightarrow> store
    \<Rightarrow> actionResult completion \<times> store" where
  "repostBody e postId userPub ownPub s =
     (case resolveOriginalPost e postId s of
        None \<Rightarrow> (Done (failed ''Post not found''), s)
      | Some originalPost \<Rightarrow>
          (let ts = objGet originalPost ''timestamp'';
               repostTimestamp = (if truthy ts then ts else VNum (dateNow e 0));
               i = (if truthy ts then 0 else 1)
           in
             thenDo (gunPut e (gunGet (appReposts postId) userPub)
                       (VObj [(''timestamp'', VNum (dateNow e i))]) s) (\<lambda>s1.
             thenDo (gunPut e (gunGet (mirrorReposts postId) userPub)
                       (VObj [(''timestamp'', VNum (dateNow e (i + 1)))]) s1) (\<lambda>s2.
             thenDo (gunPut e (ownPostsIndex ownPub postId)
                       (repostEntry postId repostTimestamp) s2) (\<lambda>s3.
             thenDo (gunPut e (userPostsIndex userPub postId)
                       (repostEntry postId repostTimestamp) s3) (\<lambda>s4.
             (Done succeeded, s4)))))))"

definition repost :: "env \<Rightarrow> string \<Rightarrow> store \<Rightarrow> actionResult completion \<times> store" where
  "repost e postId s =
     (if \<not> gunPresent e \<or> \<not> isLoggedIn e then (Done (failed ''Not authenticated''), s)
      else case (resolvedPub e, truthyPub (userIsPub e)) of
        (Some userPub, Some ownPub) \<Rightarrow>
          tryCatch (repostBody e postId userPub ownPub s) (failed ''Failed to repost'')
      | _ \<Rightarrow> (Done (failed ''User not authenticated''), s))"

definition unrepostBody :: "env \<Rightarrow> string \<Rightarrow> string \<Rightarrow> string \<Rightarrow> store
    \<Rightarrow> actionResult completion \<times> store" where
  "unrepostBody e postId userPub ownPub s =
     thenDo (gunPut e (gunGet (appReposts postId) userPub) VNull s) (\<lambda>s1.
     thenDo (gunPut e (gunGet (mirrorReposts postId) userPub) VNull s1) (\<lambda>s2.
     thenDo (gunPut e (ownPostsIndex ownPub postId) VNull s2) (\<lambda>s3.
     thenDo (gunPut e (userPostsIndex userPub postId) VNull s3) (\<lambda>s4.
     (Done succeeded, s4)))))"

definition unrepost :: "env \<Rightarrow> string \<Rightarrow> store \<Rightarrow> actionResult completion \<times> store" where
  "unrepost e postId s =
     (if \<not> gunPresent e \<or> \<not> isLoggedIn e then (Done (failed ''Not authenticated''), s)
      else case (resolvedPub e, truthyPub (userIsPub e)) of
        (Some userPub, Some ownPub) \<Rightarrow>
          tryCatch (unrepostBody e postId userPub ownPub s) (failed ''Failed to unrepost'')
      | _ \<Rightarrow> (Done (failed ''User not authenticated''), s))"

definition replyToPost :: "string \<Rightarrow> string \<Rightarrow> store \<Rightarrow> actionResult completion \<times> store" where
  "replyToPost postId content s =
     (Done (failed (''Please use publishPost from useSocialProtocol with replyToId ''
                    @ ''parameter for content-addressed replies'')), s)"

subsection \<open>Posts and the read-side helpers\<close>

record profile =
  username :: string
  avatar :: "string option"
  bio :: string

record post =
  post_id :: string
  author :: string
  content :: string
  timestamp :: int
  likes :: "jsobj option"
  reposts :: "jsobj option"
  replyTo :: "string option"
  media :: "string option"
  authorProfile :: "profile option"

text \<open>
  \<open>repostValue && (repostValue === true || (typeof repostValue === 'object' &&
  !repostValue._))\<close>.
\<close>

definition repostMarker :: "gval \<Rightarrow> bool" where
  "repostMarker v =
     (truthy v \<and> (v = VBool True \<or> (typeofObject v \<and> \<not> truthy (propOf v ''_''))))"

definition isLiked :: "env \<Rightarrow> post \<Rightarrow> bool" where
  "isLiked e p =
     (if \<not> gunPresent e \<or> \<not> isLoggedIn e then False
      else case truthyPub (getCurrentUserPub e) of
        None \<Rightarrow>
          (case truthyPub (userIsPub e) of
             Some actualUserPub \<Rightarrow>
               (case likes p of None \<Rightarrow> False | Some ls \<Rightarrow> truthy (objGet ls actualUserPub))
           | None \<Rightarrow> False)
      | Some userPub \<Rightarrow>
          (case likes p of None \<Rightarrow> False | Some ls \<Rightarrow> truthy (objGet ls userPub)))"

definition isReposted :: "env \<Rightarrow> post \<Rightarrow> bool" where
  "isReposted e p =
     (if \<not> gunPresent e \<or> \<not> isLoggedIn e then False
      else case truthyPub (getCurrentUserPub e) of
        None \<Rightarrow>
          (case truthyPub (userIsPub e) of
             Some actualUserPub \<Rightarrow>
               (case reposts p of
                  None \<Rightarrow> False
                | Some rs \<Rightarrow> repostMarker (objGet rs actualUserPub))
           | None \<Rightarrow> False)
      | Some userPub \<Rightarrow>
          (case reposts p of None \<Rightarrow> False | Some rs \<Rightarrow> repostMarker (objGet rs userPub)))"

text \<open>
  \<open>Object.keys(record).filter((key) => record[key] && !key.startsWith('_')).length\<close>,
  shared by \<open>getLikeCount\<close> and \<open>getRepostCount\<close>.
\<close>

definition countedKeys :: "jsobj \<Rightarrow> string list" where
  "countedKeys ob = filter (\<lambda>key. truthy (objGet ob key) \<and> \<not> startsWith key ''_'') (objKeys ob)"


definition getRepostCount :: "post \<Rightarrow> nat" where
  "getRepostCount p = (case reposts p of None \<Rightarrow> 0 | Some rs \<Rightarrow> length (countedKeys rs))"


section \<open>PostCard: is the displayed post a repost\<close>

text \<open>
  \<open>currentUserPub\<close> is the \<open>userPub\<close> of \<open>useShogun()\<close> (\<open>None\<close> when nobody is logged in)
  and \<open>pathname\<close> is \<open>location.pathname\<close>.
\<close>

definition isRepostedPost :: "env \<Rightarrow> string option \<Rightarrow> string \<Rightarrow> post \<Rightarrow> bool" where
  "isRepostedPost e currentUserPub pathname p =
     (let reposted = isReposted e p;
          isOwnPost = (Some (author p) = currentUserPub);
          isMyPostsPage = (pathname = ''/my-posts'')
      in if isMyPostsPage then \<not> isOwnPost else \<not> isOwnPost \<and> reposted)"

section \<open>PostDetail: looking a post up by its id\<close>

text \<open>
  The interaction records the detail page reads once the payload has arrived. Each
  callback of \<open>map().once\<close> sets \<open>likes[key] = true\<close> when the entry passes the test.
\<close>

definition likeEntryOk :: "string \<Rightarrow> gval \<Rightarrow> bool" where
  "likeEntryOk likeKey likeValue =
     (likeKey \<noteq> [] \<and> \<not> startsWith likeKey ''_'' \<and>
      (likeValue = VBool True \<or>
       (truthy likeValue \<and> typeofObject likeValue \<and> \<not> truthy (propOf likeValue ''_''))))"

definition repostEntryOk :: "string \<Rightarrow> gval \<Rightarrow> bool" where
  "repostEntryOk repostKey repostValue =
     (repostKey \<noteq> [] \<and> \<not> startsWith repostKey ''_'' \<and>
      (truthy repostValue \<and> typeofObject repostValue \<and> \<not> truthy (propOf repostValue ''_'')))"

definition collectEntries :: "(string \<Rightarrow> gval \<Rightarrow> bool) \<Rightarrow> (string \<times> gval) list \<Rightarrow> jsobj" where
  "collectEntries ok entries =
     foldl (\<lambda>acc kv. if ok (fst kv) (snd kv) then AList.update (fst kv) (VBool True) acc else acc)
       [] entries"

definition loadLikes :: "store \<Rightarrow> string \<Rightarrow> jsobj" where
  "loadLikes s postId = collectEntries likeEntryOk (gunMapOnce s (appLikes postId))"

definition loadReposts :: "store \<Rightarrow> string \<Rightarrow> jsobj" where
  "loadReposts s postId = collectEntries repostEntryOk (gunMapOnce s (appReposts postId))"

text \<open>
  \<open>a || b\<close> on values, and the payload fields read at the types the \<open>Post\<close> interface
  declares (a field of another type is read as the empty string, or as 0 for the
  timestamp, which \<open>||\<close> then replaces by its right-hand side).
\<close>

definition orElse :: "gval \<Rightarrow> gval \<Rightarrow> gval" where
  "orElse a b = (if truthy a then a else b)"

fun asString :: "gval \<Rightarrow> string" where
  "asString (VStr s) = s"
| "asString v = []"

fun asNumber :: "gval \<Rightarrow> int" where
  "asNumber (VNum n) = n"
| "asNumber v = 0"

definition optString :: "gval \<Rightarrow> string option" where
  "optString v = (if asString v = [] then None else Some (asString v))"

text \<open>
  The \<open>Post\<close> that \<open>setPost\<close> receives: the payload's own \<open>likes\<close> and \<open>reposts\<close> are
  replaced by the records read from the interaction nodes, and the profile is the one
  \<open>getPostAuthor\<close> delivered.
\<close>

definition postDetailPost :: "store \<Rightarrow> string \<Rightarrow> jsobj \<Rightarrow> int \<Rightarrow> profile \<Rightarrow> post" where
  "postDetailPost s postId cleanPostData now prof =
     \<lparr>post_id = postId,
      author = asString (orElse (orElse (objGet cleanPostData ''authorPub'')
                 (objGet cleanPostData ''author'')) (VStr [])),
      content = asString (orElse (orElse (objGet cleanPostData ''text'')
                  (objGet cleanPostData ''content'')) (VStr [])),
      timestamp = asNumber (orElse (objGet cleanPostData ''timestamp'') (VNum now)),
      likes = Some (loadLikes s postId),
      reposts = Some (loadReposts s postId),
      replyTo = optString (objGet cleanPostData ''replyTo''),
      media = optString (objGet cleanPostData ''media''),
      authorProfile = Some prof\<rparr>"

text \<open>
  The effect of \<open>PostDetail\<close> as a state machine. \<open>pd_found\<close> is the local flag \<open>found\<close>,
  \<open>pd_loaded\<close> lists the souls on which \<open>gun.get(postSoul).once\<close> was issued, \<open>pd_answered\<close>
  says that this \<open>once\<close> has called back, \<open>pd_payload\<close> is the accepted \<open>cleanPostData\<close>,
  \<open>pd_shown\<close> that \<open>setPost\<close> has run, \<open>pd_timer\<close> that the timeout is still scheduled,
  \<open>pd_elapsed\<close> the milliseconds since the effect ran and \<open>pd_listening\<close> that the
  subscriptions are still on.
\<close>

record pdState =
  pd_loading :: bool
  pd_error :: "string option"
  pd_found :: bool
  pd_loaded :: "string list"
  pd_answered :: bool
  pd_payload :: "jsobj option"
  pd_shown :: bool
  pd_timer :: bool
  pd_elapsed :: nat
  pd_listening :: bool

record pdEnv =
  isReady :: bool
  socialNetwork :: bool
  pdPostId :: "string option"
  pdGun :: bool

definition pdInitial :: pdState where
  "pdInitial = \<lparr>pd_loading = True, pd_error = None, pd_found = False, pd_loaded = [],
      pd_answered = False, pd_payload = None, pd_shown = False, pd_timer = False,
      pd_elapsed = 0, pd_listening = False\<rparr>"

definition postDetailEffect :: "pdEnv \<Rightarrow> pdState" where
  "postDetailEffect e =
     (if \<not> isReady e \<or> \<not> socialNetwork e \<or> truthyPub (pdPostId e) = None \<or> \<not> pdGun e then
        (if \<not> isReady e \<or> \<not> socialNetwork e then pdInitial\<lparr>pd_loading := False\<rparr>
         else if truthyPub (pdPostId e) = None then
           pdInitial\<lparr>pd_error := Some ''Post ID not provided'', pd_loading := False\<rparr>
         else pdInitial)
      else pdInitial\<lparr>pd_loading := True, pd_error := None, pd_found := False,
             pd_timer := True, pd_listening := True\<rparr>)"

text \<open>
  The channels a soul can arrive on: the content-addressed table \<open>#posts\<close> and the
  timeline shard of the day \<open>i\<close> days back; the effect subscribes to \<open>i < 7\<close>.
\<close>

datatype channel = HashTable | TimelineDay nat

fun subscribed :: "channel \<Rightarrow> bool" where
  "subscribed HashTable = True"
| "subscribed (TimelineDay i) = (i < 7)"

definition timeoutMs :: nat where
  "timeoutMs = 8000"

definition loadPostFromSoul :: "gval \<Rightarrow> pdState \<Rightarrow> pdState" where
  "loadPostFromSoul postSoul s =
     (if \<not> truthy postSoul \<or> \<not> typeofString postSoul \<or> pd_found s then s
      else s\<lparr>pd_found := True, pd_loaded := asString postSoul # pd_loaded s\<rparr>)"

datatype pdEvent = Deliver channel gval | PostData gval | AuthorResolved | Elapse nat | Cleanup

fun pdStep :: "pdEvent \<Rightarrow> pdState \<Rightarrow> pdState" where
  "pdStep (Deliver ch postSoul) s =
     (if pd_listening s \<and> subscribed ch \<and> truthy postSoul \<and> typeofString postSoul
      then loadPostFromSoul postSoul s else s)"
| "pdStep (PostData postData) s =
     (if pd_loaded s = [] \<or> pd_answered s then s
      else if truthy postData \<and> typeofObject postData then
        (case postData of
           VObj fs \<Rightarrow> s\<lparr>pd_answered := True, pd_payload := Some (stripMeta fs)\<rparr>
         | _ \<Rightarrow> s)
      else s\<lparr>pd_answered := True, pd_error := Some ''Post data not found'',
             pd_loading := False\<rparr>)"
| "pdStep AuthorResolved s =
     (if pd_payload s \<noteq> None \<and> \<not> pd_shown s
      then s\<lparr>pd_shown := True, pd_loading := False\<rparr> else s)"
| "pdStep (Elapse d) s =
     (if pd_timer s \<and> timeoutMs \<le> pd_elapsed s + d then
        (if \<not> pd_found s
         then s\<lparr>pd_elapsed := pd_elapsed s + d, pd_timer := False,
                pd_error := Some ''Post not found'', pd_loading := False\<rparr>
         else s\<lparr>pd_elapsed := pd_elapsed s + d, pd_timer := False\<rparr>)
      else s\<lparr>pd_elapsed := pd_elapsed s + d\<rparr>)"
| "pdStep Cleanup s = s\<lparr>pd_timer := False, pd_listening := False\<rparr>"

definition pdRun :: "pdEvent list \<Rightarrow> pdState \<Rightarrow> pdState" where
  "pdRun evs s = foldl (\<lambda>st ev. pdStep ev st) s evs"


section \<open>useUserPostsBidirectional\<close>

text \<open>
  What \<open>getUserPosts\<close> hands to its callback. An optional string field that is missing is
  the empty string and a missing timestamp is 0: \<open>||\<close> treats both like the missing
  field.
\<close>

record pwProfile =
  displayName :: string
  avatarCid :: string
  pw_bio :: string

record postWithAuthor =
  pw_id :: string
  pw_authorPub :: string
  pw_author :: string
  pw_text :: string
  pw_content :: string
  pw_timestamp :: int
  pw_likes :: "jsobj option"
  pw_reposts :: "jsobj option"
  pw_replyTo :: string
  pw_media :: string
  pw_authorProfile :: "pwProfile option"

definition strOr :: "string \<Rightarrow> string \<Rightarrow> string" where
  "strOr a b = (if a \<noteq> [] then a else b)"

definition strOpt :: "string \<Rightarrow> string option" where
  "strOpt a = (if a \<noteq> [] then Some a else None)"

definition objOr :: "jsobj option \<Rightarrow> jsobj" where
  "objOr ob = (case ob of Some x \<Rightarrow> x | None \<Rightarrow> [])"

definition toPost :: "int \<Rightarrow> postWithAuthor \<Rightarrow> post" where
  "toPost now pw =
     \<lparr>post_id = pw_id pw,
      author = strOr (strOr (pw_authorPub pw) (pw_author pw)) [],
      content = strOr (strOr (pw_text pw) (pw_content pw)) [],
      timestamp = (if pw_timestamp pw \<noteq> 0 then pw_timestamp pw else now),
      likes = Some (objOr (pw_likes pw)),
      reposts = Some (objOr (pw_reposts pw)),
      replyTo = strOpt (pw_replyTo pw),
      media = strOpt (pw_media pw),
      authorProfile =
        (case pw_authorProfile pw of
           Some ap \<Rightarrow> Some \<lparr>username = displayName ap, avatar = strOpt (avatarCid ap),
                         bio = pw_bio ap\<rparr>
         | None \<Rightarrow> None)\<rparr>"

text \<open>
  \<open>postsMap\<close> is the \<open>Map\<close> of the hook, in insertion order (\<open>set\<close> on a key already
  present keeps its place); \<open>up_posts\<close> is the React state \<open>posts\<close>.
\<close>

record upState =
  postsMap :: "(string \<times> post) list"
  up_posts :: "post list"
  up_loading :: bool
  up_error :: "string option"

definition upInitial :: upState where
  "upInitial = \<lparr>postsMap = [], up_posts = [], up_loading = True, up_error = None\<rparr>"

text \<open>\<open>loadPosts\<close> up to the subscription: \<open>ready\<close> is \<open>isReady\<close>.\<close>

definition loadPosts :: "bool \<Rightarrow> string \<Rightarrow> upState \<Rightarrow> upState" where
  "loadPosts ready userPub s =
     (if \<not> ready \<or> userPub = [] then s\<lparr>up_loading := False\<rparr>
      else s\<lparr>postsMap := [], up_loading := True, up_error := None\<rparr>)"

text \<open>\<open>Array.from(postsMap.values()).sort((a, b) => b.timestamp - a.timestamp)\<close>.\<close>

definition newestFirst :: "post list \<Rightarrow> post list" where
  "newestFirst ps = sort_key (\<lambda>p. - timestamp p) ps"

text \<open>
  One call of the callback given to \<open>getUserPosts\<close>; \<open>now\<close> is what \<open>Date.now()\<close> returns
  during it.
\<close>

definition onUserPost :: "int \<times> postWithAuthor option \<Rightarrow> upState \<Rightarrow> upState" where
  "onUserPost d s =
     (case snd d of
        None \<Rightarrow> s
      | Some postWithAuthor \<Rightarrow>
          (if pw_id postWithAuthor = [] then s
           else
             (let p = toPost (fst d) postWithAuthor;
                  m = AList.update (post_id p) p (postsMap s)
              in s\<lparr>postsMap := m, up_posts := newestFirst (map snd m), up_loading := False\<rparr>)))"

definition upRun :: "(int \<times> postWithAuthor option) list \<Rightarrow> upState \<Rightarrow> upState" where
  "upRun ds s = foldl (\<lambda>st d. onUserPost d st) s ds"


section \<open>Concrete environments\<close>

text \<open>
  A logged-in user whose public key is \<open>alice\<close>, one whose key begins with an underscore
  (the keys are base64url text, where \<open>_\<close> is an ordinary character), and a profile.
\<close>

definition aliceEnv :: env where
  "aliceEnv = \<lparr>gunPresent = True, isLoggedIn = True, getCurrentUserPub = Some ''alice'',
      userIsPub = Some ''alice'', seaPresent = True, putThrows = (\<lambda>p. False),
      dateNow = (\<lambda>i. 1700000000000 + int i)\<rparr>"


definition noProfile :: profile where
  "noProfile = \<lparr>username = [], avatar = None, bio = []\<rparr>"

section \<open>The count in the words of the specification\<close>





text \<open>A post by \<open>bob\<close> that nobody has liked or reposted.\<close>

definition bobPost :: post where
  "bobPost = \<lparr>post_id = ''post3'', author = ''bob'', content = ''hello'',
      timestamp = 1700000000000, likes = Some [], reposts = Some [],
      replyTo = None, media = None, authorProfile = None\<rparr>"

text \<open>
  In the words of the specification, a record contains a non-tombstoned entry for a user
  when the value under the user's key is truthy. The post below is one by \<open>bob\<close> whose
  repost record holds, under \<open>alice\<close>, the entry as the store hands it out: the
  \<open>{timestamp}\<close> object together with the store's \<open>_\<close> metadata.
\<close>

definition nonTombstonedEntry :: "jsobj \<Rightarrow> string \<Rightarrow> bool" where
  "nonTombstonedEntry rs u = truthy (objGet rs u)"

definition metadataRepostPost :: post where
  "metadataRepostPost = \<lparr>post_id = ''post4'', author = ''bob'', content = ''hello'',
      timestamp = 1700000000000, likes = Some [],
      reposts = Some [(''alice'', VObj [(''_'', VObj [(''#'', VStr ''soul4'')]),
                                        (''timestamp'', VNum 1700000000005)])],
      replyTo = None, media = None, authorProfile = None\<rparr>"

text \<open>
  An environment in which every \<open>put\<close> throws, one that is not logged in, and stores: one
  holding a post by \<open>bob\<close> under the content-addressed table, the same after \<open>alice\<close> has
  reposted it, and one holding a post \<open>alice\<close> wrote, listed in her own post index.
\<close>

definition faultyEnv :: env where
  "faultyEnv = \<lparr>gunPresent = True, isLoggedIn = True, getCurrentUserPub = None,
      userIsPub = Some ''alice'', seaPresent = True, putThrows = (\<lambda>p. True),
      dateNow = (\<lambda>i. 1700000000000 + int i)\<rparr>"

definition loggedOutEnv :: env where
  "loggedOutEnv = \<lparr>gunPresent = True, isLoggedIn = False, getCurrentUserPub = Some ''alice'',
      userIsPub = Some ''alice'', seaPresent = True, putThrows = (\<lambda>p. False),
      dateNow = (\<lambda>i. 1700000000000 + int i)\<rparr>"

definition publishedStore :: store where
  "publishedStore =
     [(gunGet (gunGet gun ''#posts'') ''post1'', VStr ''soul1''),
      (gunGet gun ''soul1'',
         VObj [(''_'', VObj [(''#'', VStr ''soul1'')]), (''authorPub'', VStr ''bob''),
               (''text'', VStr ''hello''), (''timestamp'', VNum 1690000000000)])]"

text \<open>
  Reading a tombstone like a missing entry: two values are the same entry when they are
  equal or both are \<open>null\<close> or \<open>undefined\<close>.
\<close>

definition absentOrNull :: "gval \<Rightarrow> bool" where
  "absentOrNull v = (v = VUndef \<or> v = VNull)"

definition sameEntry :: "gval \<Rightarrow> gval \<Rightarrow> bool" where
  "sameEntry a b = (a = b \<or> (absentOrNull a \<and> absentOrNull b))"

definition repostedStore :: store where
  "repostedStore = snd (repost aliceEnv ''post1'' publishedStore)"

definition authoredStore :: store where
  "authoredStore =
     [(gunGet (gunGet gun ''#posts'') ''post9'', VStr ''soul9''),
      (gunGet gun ''soul9'',
         VObj [(''authorPub'', VStr ''alice''), (''text'', VStr ''mine''),
               (''timestamp'', VNum 1690000000009)]),
      (userPostsIndex ''alice'' ''post9'',
         VObj [(''id'', VStr ''post9''), (''timestamp'', VNum 1690000000009)]),
      (ownPostsIndex ''alice'' ''post9'',
         VObj [(''id'', VStr ''post9''), (''timestamp'', VNum 1690000000009)])]"

section \<open>Traces of the post-detail lookup\<close>

text \<open>
  The time an event takes, the time a trace takes, and the events that deliver nothing:
  time passing, and a delivery that is not a non-empty string on a subscribed channel.
  \<open>started\<close> says that the effect got past its guards and subscribed.
\<close>

fun elapseOf :: "pdEvent \<Rightarrow> nat" where
  "elapseOf (Elapse d) = d"
| "elapseOf ev = 0"

definition elapsedOf :: "pdEvent list \<Rightarrow> nat" where
  "elapsedOf evs = sum_list (map elapseOf evs)"

fun silent :: "pdEvent \<Rightarrow> bool" where
  "silent (Elapse d) = True"
| "silent (Deliver ch v) = (\<not> (subscribed ch \<and> truthy v \<and> typeofString v))"
| "silent ev = False"

definition started :: "pdEnv \<Rightarrow> bool" where
  "started e = (isReady e \<and> socialNetwork e \<and> truthyPub (pdPostId e) \<noteq> None \<and> pdGun e)"

text \<open>Invariants of the lookup and of the user-posts subscription.\<close>

definition loadedOnce :: "pdState \<Rightarrow> bool" where
  "loadedOnce s = (length (pd_loaded s) \<le> 1 \<and> (\<not> pd_found s \<longrightarrow> pd_loaded s = []))"

definition keyedById :: "upState \<Rightarrow> bool" where
  "keyedById s = (distinct (map fst (postsMap s))
      \<and> map post_id (map snd (postsMap s)) = map fst (postsMap s)
      \<and> distinct (map post_id (up_posts s)))"

definition timelyError :: "pdState \<Rightarrow> bool" where
  "timelyError s =
     ((pd_error s = Some ''Post not found'' \<longrightarrow> timeoutMs \<le> pd_elapsed s)
      \<and> (\<not> pd_listening s \<longrightarrow> \<not> pd_timer s))"

definition settled :: "pdState \<Rightarrow> bool" where
  "settled s = (pd_error s \<noteq> Some ''Post not found'' \<and> (pd_found s \<or> \<not> pd_timer s))"

definition waiting :: "pdState \<Rightarrow> bool" where
  "waiting s = (pd_timer s \<and> \<not> pd_found s \<and> pd_listening s \<and> pd_elapsed s < timeoutMs)"

definition timedOut :: "pdState \<Rightarrow> bool" where
  "timedOut s = (pd_error s = Some ''Post not found'' \<and> \<not> pd_loading s \<and> \<not> pd_timer s)"

text \<open>A lookup that starts, and a post that \<open>getUserPosts\<close> delivers.\<close>

definition readyEnv :: pdEnv where
  "readyEnv = \<lparr>isReady = True, socialNetwork = True, pdPostId = Some ''post1'', pdGun = True\<rparr>"

definition aliceDelivery :: postWithAuthor where
  "aliceDelivery = \<lparr>pw_id = ''post1'', pw_authorPub = ''alice'', pw_author = [],
      pw_text = ''hello'', pw_content = [], pw_timestamp = 1690000000000,
      pw_likes = None, pw_reposts = None, pw_replyTo = [], pw_media = [],
      pw_authorProfile = None\<rparr>"

section \<open>The store and the interaction records\<close>

lemma gunOnce_update: "gunOnce (AList.update p v s) q = (if q = p then v else gunOnce s q)"
  by (simp add: gunOnce_def update_conv')


lemma isChildOf_gunGet: "isChildOf p (gunGet p k)"
  by (simp add: isChildOf_def gunGet_def)

lemma isChildOf_last: "isChildOf p q \<Longrightarrow> gunGet p (last (snd q)) = q"
proof -
  assume c: "isChildOf p q"
  then have "snd q \<noteq> []" "butlast (snd q) = snd p" "fst q = fst p"
    by (simp_all add: isChildOf_def)
  with append_butlast_last_id[of "snd q"] have "snd p @ [last (snd q)] = snd q" by simp
  with \<open>fst q = fst p\<close> show ?thesis by (cases q) (simp add: gunGet_def)
qed

lemma set_gunMapOnce:
  "(k, v) \<in> set (gunMapOnce s p) \<longleftrightarrow> map_of s (gunGet p k) = Some v"
proof -
  have "(k, v) \<in> set (gunMapOnce s p) \<longleftrightarrow> (gunGet p k, v) \<in> set (AList.clearjunk s)"
  proof
    assume "(k, v) \<in> set (gunMapOnce s p)"
    then obtain q where q: "(q, v) \<in> set (AList.clearjunk s)" "isChildOf p q" "k = last (snd q)"
      by (auto simp: gunMapOnce_def)
    from isChildOf_last[OF q(2)] q(3) have "gunGet p k = q" by simp
    with q(1) show "(gunGet p k, v) \<in> set (AList.clearjunk s)" by simp
  next
    assume "(gunGet p k, v) \<in> set (AList.clearjunk s)"
    then have "(\<lambda>qv. (last (snd (fst qv)), snd qv)) (gunGet p k, v)
        \<in> set (gunMapOnce s p)"
      unfolding gunMapOnce_def set_map set_filter
      by (intro imageI) (simp add: isChildOf_gunGet)
    then show "(k, v) \<in> set (gunMapOnce s p)" by (simp add: gunGet_def)
  qed
  also have "\<dots> \<longleftrightarrow> map_of s (gunGet p k) = Some v"
    by (metis distinct_clearjunk map_of_clearjunk map_of_eq_Some_iff)
  finally show ?thesis .
qed






lemma map_of_collect_foldl:
  "map_of (foldl (\<lambda>acc kv. if ok (fst kv) (snd kv) then AList.update (fst kv) (VBool True) acc
                   else acc) acc entries) k =
     (if \<exists>v. (k, v) \<in> set entries \<and> ok k v then Some (VBool True) else map_of acc k)"
proof (induction entries arbitrary: acc)
  case Nil
  then show ?case by simp
next
  case (Cons kv entries)
  show ?case
    by (cases kv) (auto simp: Cons.IH update_conv')
qed

lemma map_of_collectEntries:
  "map_of (collectEntries ok entries) k =
     (if \<exists>v. (k, v) \<in> set entries \<and> ok k v then Some (VBool True) else None)"
  by (simp add: collectEntries_def map_of_collect_foldl)

lemma length_countedKeys:
  "length (countedKeys ob) =
     card {k. \<exists>v. map_of ob k = Some v \<and> truthy v \<and> \<not> startsWith k ''_''}"
proof -
  have "length (countedKeys ob) =
      card ({key. truthy (objGet ob key) \<and> \<not> startsWith key ''_''} \<inter> set (objKeys ob))"
    unfolding countedKeys_def by (rule distinct_length_filter) (simp add: objKeys_def)
  also have "{key. truthy (objGet ob key) \<and> \<not> startsWith key ''_''} \<inter> set (objKeys ob) =
      {k. \<exists>v. map_of ob k = Some v \<and> truthy v \<and> \<not> startsWith k ''_''}"
    by (auto simp: objGet_def objKeys_def split: option.splits dest: map_of_SomeD)
       (metis weak_map_of_SomeI option.distinct(1) map_of_eq_None_iff image_eqI fst_conv)
  finally show ?thesis .
qed









section \<open>Likes\<close>







section \<open>Counts\<close>









section \<open>Replies through the interactions hook\<close>

text \<open>
  C10. For every post id and content, \<open>replyToPost\<close> returns \<open>success: false\<close> with the
  message that sends the caller to \<open>publishPost\<close> with a \<open>replyToId\<close>, and leaves the
  store as it was: no reply can be created through this hook.
\<close>

theorem replyToPost_refuses:
  "replyToPost postId replyText s =
     (Done \<lparr>success = False,
            error = Some (''Please use publishPost from useSocialProtocol with replyToId ''
                          @ ''parameter for content-addressed replies'')\<rparr>, s)"
  by (simp add: replyToPost_def failed_def)

section \<open>Classifying a displayed post as a repost\<close>

lemma repostMarker_shape:
  "repostMarker v \<longleftrightarrow>
     v = VBool True \<or> (\<exists>fs. v = VObj fs \<and> \<not> truthy (objGet fs ''_''))"
  by (cases v) (auto simp: repostMarker_def)

lemma isReposted_shape:
  "isReposted e p \<longleftrightarrow>
     gunPresent e \<and> isLoggedIn e \<and>
     (\<exists>u rs. resolvedPub e = Some u \<and> reposts p = Some rs \<and>
        (objGet rs u = VBool True \<or> (\<exists>fs. objGet rs u = VObj fs \<and> \<not> truthy (objGet fs ''_''))))"
  by (auto simp: isReposted_def resolvedPub_def repostMarker_shape split: option.splits)

text \<open>
  C9 (as amended). \<open>isRepostedPost\<close> has two derivations. On the page \<open>/my-posts\<close> the post
  is a repost exactly when its author is not the current user, whatever the interaction
  record holds. On every other page it is a repost exactly when its author is not the
  current user, somebody is logged in, and the entry of the post's repost record under
  the identity's public key is \<open>true\<close> or an object whose \<open>_\<close> property is not truthy. Such
  an entry is never a tombstone, and on the entries the record is specified to hold
  (absent, \<open>null\<close>, \<open>true\<close>, \<open>{timestamp}\<close>) this is exactly the non-tombstoned ones.
\<close>

theorem repost_classification:
  "(pathname = ''/my-posts'' \<longrightarrow>
      isRepostedPost e currentUserPub pathname p = (Some (author p) \<noteq> currentUserPub))
   \<and> (pathname \<noteq> ''/my-posts'' \<longrightarrow>
      isRepostedPost e currentUserPub pathname p =
        (Some (author p) \<noteq> currentUserPub \<and> gunPresent e \<and> isLoggedIn e \<and>
         (\<exists>u rs. resolvedPub e = Some u \<and> reposts p = Some rs \<and>
            (objGet rs u = VBool True
             \<or> (\<exists>fs. objGet rs u = VObj fs \<and> \<not> truthy (objGet fs ''_''))))))
   \<and> (pathname \<noteq> ''/my-posts'' \<and> isRepostedPost e currentUserPub pathname p \<longrightarrow>
      (\<exists>u rs. resolvedPub e = Some u \<and> reposts p = Some rs \<and> nonTombstonedEntry rs u))
   \<and> (pathname \<noteq> ''/my-posts'' \<and> gunPresent e \<and> isLoggedIn e \<and> resolvedPub e = Some u
        \<and> reposts p = Some rs
        \<and> (objGet rs u = VUndef \<or> objGet rs u = VNull \<or> objGet rs u = VBool True
            \<or> objGet rs u = VObj [(''timestamp'', VNum t)]) \<longrightarrow>
      isRepostedPost e currentUserPub pathname p =
        (Some (author p) \<noteq> currentUserPub \<and> nonTombstonedEntry rs u))"
proof -
  have a: "pathname = ''/my-posts'' \<longrightarrow>
      isRepostedPost e currentUserPub pathname p = (Some (author p) \<noteq> currentUserPub)"
    by (simp add: isRepostedPost_def)
  have b: "pathname \<noteq> ''/my-posts'' \<longrightarrow>
      isRepostedPost e currentUserPub pathname p =
        (Some (author p) \<noteq> currentUserPub \<and> gunPresent e \<and> isLoggedIn e \<and>
         (\<exists>u rs. resolvedPub e = Some u \<and> reposts p = Some rs \<and>
            (objGet rs u = VBool True
             \<or> (\<exists>fs. objGet rs u = VObj fs \<and> \<not> truthy (objGet fs ''_'')))))"
    by (simp add: isRepostedPost_def isReposted_shape)
  have c: "pathname \<noteq> ''/my-posts'' \<and> isRepostedPost e currentUserPub pathname p \<longrightarrow>
      (\<exists>u rs. resolvedPub e = Some u \<and> reposts p = Some rs \<and> nonTombstonedEntry rs u)"
    using b by (auto simp: nonTombstonedEntry_def)
  have d: "pathname \<noteq> ''/my-posts'' \<and> gunPresent e \<and> isLoggedIn e \<and> resolvedPub e = Some u
        \<and> reposts p = Some rs
        \<and> (objGet rs u = VUndef \<or> objGet rs u = VNull \<or> objGet rs u = VBool True
            \<or> objGet rs u = VObj [(''timestamp'', VNum t)]) \<longrightarrow>
      isRepostedPost e currentUserPub pathname p =
        (Some (author p) \<noteq> currentUserPub \<and> nonTombstonedEntry rs u)"
    using b by (auto simp: nonTombstonedEntry_def objGet_def)
  from a b c d show ?thesis by blast
qed

theorem repost_classification_witness:
  "isRepostedPost aliceEnv (Some ''alice'') ''/my-posts'' bobPost
   \<and> \<not> isRepostedPost aliceEnv (Some ''alice'') ''/'' bobPost
   \<and> isRepostedPost aliceEnv (Some ''alice'') ''/''
       (bobPost\<lparr>reposts := Some [(''alice'', VObj [(''timestamp'', VNum 5)])]\<rparr>)
   \<and> \<not> isRepostedPost aliceEnv (Some ''alice'') ''/''
       (bobPost\<lparr>reposts := Some [(''alice'', VNull)]\<rparr>)
   \<and> \<not> isRepostedPost aliceEnv (Some ''alice'') ''/my-posts'' (bobPost\<lparr>author := ''alice''\<rparr>)"
proof -
  have pre: "gunPresent aliceEnv \<and> isLoggedIn aliceEnv \<and> resolvedPub aliceEnv = Some ''alice''
      \<and> author bobPost = ''bob'' \<and> reposts bobPost = Some []"
    by code_simp
  have a: "isRepostedPost aliceEnv (Some ''alice'') ''/my-posts'' bobPost"
    using repost_classification[of "''/my-posts''" aliceEnv "Some ''alice''" bobPost
        "''alice''" "[]" 5] pre
    by simp
  have b: "\<not> isRepostedPost aliceEnv (Some ''alice'') ''/'' bobPost"
    using repost_classification[of "''/''" aliceEnv "Some ''alice''" bobPost
        "''alice''" "[]" 5] pre
    by (simp add: objGet_def nonTombstonedEntry_def)
  have c: "isRepostedPost aliceEnv (Some ''alice'') ''/''
       (bobPost\<lparr>reposts := Some [(''alice'', VObj [(''timestamp'', VNum 5)])]\<rparr>)"
    using repost_classification[of "''/''" aliceEnv "Some ''alice''"
        "bobPost\<lparr>reposts := Some [(''alice'', VObj [(''timestamp'', VNum 5)])]\<rparr>"
        "''alice''" "[(''alice'', VObj [(''timestamp'', VNum 5)])]" 5] pre
    by (simp add: objGet_def nonTombstonedEntry_def)
  have d: "\<not> isRepostedPost aliceEnv (Some ''alice'') ''/''
       (bobPost\<lparr>reposts := Some [(''alice'', VNull)]\<rparr>)"
    using repost_classification[of "''/''" aliceEnv "Some ''alice''"
        "bobPost\<lparr>reposts := Some [(''alice'', VNull)]\<rparr>"
        "''alice''" "[(''alice'', VNull)]" 5] pre
    by (simp add: objGet_def nonTombstonedEntry_def)
  have e: "\<not> isRepostedPost aliceEnv (Some ''alice'') ''/my-posts'' (bobPost\<lparr>author := ''alice''\<rparr>)"
    using repost_classification[of "''/my-posts''" aliceEnv "Some ''alice''"
        "bobPost\<lparr>author := ''alice''\<rparr>" "''alice''" "[]" 5]
    by simp
  from a b c d e show ?thesis by simp
qed

text \<open>
  The claim as it was stated fails on an entry that carries the store's metadata: the
  entry under \<open>alice\<close> is an object, so it is not tombstoned and \<open>getRepostCount\<close> counts it,
  the author is somebody else and the page is not \<open>/my-posts\<close>, yet \<open>isReposted\<close> rejects it
  for its \<open>_\<close> property and the post is not classified as a repost.
\<close>

theorem metadata_entry_not_classified:
  "author metadataRepostPost \<noteq> ''alice''
   \<and> gunPresent aliceEnv \<and> isLoggedIn aliceEnv \<and> resolvedPub aliceEnv = Some ''alice''
   \<and> reposts metadataRepostPost =
       Some [(''alice'', VObj [(''_'', VObj [(''#'', VStr ''soul4'')]),
                               (''timestamp'', VNum 1700000000005)])]
   \<and> nonTombstonedEntry [(''alice'', VObj [(''_'', VObj [(''#'', VStr ''soul4'')]),
                                           (''timestamp'', VNum 1700000000005)])] ''alice''
   \<and> getRepostCount metadataRepostPost = 1
   \<and> \<not> isReposted aliceEnv metadataRepostPost
   \<and> \<not> isRepostedPost aliceEnv (Some ''alice'') ''/'' metadataRepostPost"
  by code_simp

section \<open>The four actions\<close>

lemma snd_tryCatch: "snd (tryCatch m h) = snd m"
  by (cases "(m, h)" rule: tryCatch.cases) auto

lemma fst_tryCatch: "fst (tryCatch m h) = (case fst m of Done r \<Rightarrow> Done r | Thrown \<Rightarrow> Done h)"
  by (cases "(m, h)" rule: tryCatch.cases) auto

lemma likeWrites_frame:
  "q \<noteq> gunGet (appLikes postId) u \<Longrightarrow> q \<noteq> gunGet (mirrorLikes postId) u \<Longrightarrow>
   map_of (snd (likeWrites e postId u v s)) q = map_of s q"
  by (simp add: likeWrites_def gunPut_def update_conv')

lemma likeWrites_result:
  "fst (likeWrites e postId u v s) = Done succeeded \<or> fst (likeWrites e postId u v s) = Thrown"
  by (simp add: likeWrites_def gunPut_def)

lemma unrepostBody_frame:
  "q \<noteq> gunGet (appReposts postId) u \<Longrightarrow> q \<noteq> gunGet (mirrorReposts postId) u \<Longrightarrow>
   q \<noteq> ownPostsIndex own postId \<Longrightarrow> q \<noteq> userPostsIndex u postId \<Longrightarrow>
   map_of (snd (unrepostBody e postId u own s)) q = map_of s q"
  by (simp add: unrepostBody_def gunPut_def update_conv')

lemma unrepostBody_result:
  "fst (unrepostBody e postId u own s) = Done succeeded \<or>
   fst (unrepostBody e postId u own s) = Thrown"
  by (simp add: unrepostBody_def gunPut_def)

lemma repostBody_frame:
  "q \<noteq> gunGet (appReposts postId) u \<Longrightarrow> q \<noteq> gunGet (mirrorReposts postId) u \<Longrightarrow>
   q \<noteq> ownPostsIndex own postId \<Longrightarrow> q \<noteq> userPostsIndex u postId \<Longrightarrow>
   map_of (snd (repostBody e postId u own s)) q = map_of s q"
  by (simp add: repostBody_def Let_def gunPut_def update_conv' split: option.splits)

lemma repostBody_result:
  "fst (repostBody e postId u own s) = Done succeeded \<or>
   fst (repostBody e postId u own s) = Done (failed ''Post not found'') \<or>
   fst (repostBody e postId u own s) = Thrown"
  by (simp add: repostBody_def Let_def gunPut_def split: option.splits)

lemma tryCatch_structured:
  assumes "fst m = Done succeeded \<or> (\<exists>x. fst m = Done (failed x)) \<or> fst m = Thrown"
  shows "\<exists>r s'. tryCatch m (failed h) = (Done r, s') \<and> (r = succeeded \<or> (\<exists>x. r = failed x))"
  using assms by (cases "(m, failed h)" rule: tryCatch.cases) auto

lemma likePost_structured:
  "\<exists>r s'. likePost e postId s = (Done r, s') \<and> (r = succeeded \<or> (\<exists>x. r = failed x))"
proof -
  have w: "\<exists>r s'. tryCatch (likeWrites e postId u (VBool True) s) (failed h) = (Done r, s')
      \<and> (r = succeeded \<or> (\<exists>x. r = failed x))" for u h
    using likeWrites_result[of e postId u "VBool True" s] by (intro tryCatch_structured) blast
  show ?thesis
    unfolding likePost_def using w by (auto split: option.splits)
qed

lemma unlikePost_structured:
  "\<exists>r s'. unlikePost e postId s = (Done r, s') \<and> (r = succeeded \<or> (\<exists>x. r = failed x))"
proof -
  have w: "\<exists>r s'. tryCatch (likeWrites e postId u VNull s) (failed h) = (Done r, s')
      \<and> (r = succeeded \<or> (\<exists>x. r = failed x))" for u h
    using likeWrites_result[of e postId u VNull s] by (intro tryCatch_structured) blast
  show ?thesis
    unfolding unlikePost_def using w by (auto split: option.splits)
qed

lemma repost_structured:
  "\<exists>r s'. repost e postId s = (Done r, s') \<and> (r = succeeded \<or> (\<exists>x. r = failed x))"
proof -
  have w: "\<exists>r s'. tryCatch (repostBody e postId u own s) (failed h) = (Done r, s')
      \<and> (r = succeeded \<or> (\<exists>x. r = failed x))" for u own h
    using repostBody_result[of e postId u own s] by (intro tryCatch_structured) blast
  show ?thesis
    unfolding repost_def using w by (auto split: option.splits)
qed

lemma unrepost_structured:
  "\<exists>r s'. unrepost e postId s = (Done r, s') \<and> (r = succeeded \<or> (\<exists>x. r = failed x))"
proof -
  have w: "\<exists>r s'. tryCatch (unrepostBody e postId u own s) (failed h) = (Done r, s')
      \<and> (r = succeeded \<or> (\<exists>x. r = failed x))" for u own h
    using unrepostBody_result[of e postId u own s] by (intro tryCatch_structured) blast
  show ?thesis
    unfolding unrepost_def using w by (auto split: option.splits)
qed

text \<open>
  C8. \<open>likePost\<close>, \<open>unlikePost\<close>, \<open>repost\<close> and \<open>unrepost\<close> never complete by throwing:
  for every environment (whichever writes throw), post id and store, each returns a
  result that is either \<open>{success: true}\<close> or \<open>{success: false, error}\<close>.
\<close>

theorem actions_return_results:
  "(\<exists>r s'. likePost e postId s = (Done r, s') \<and> (r = succeeded \<or> (\<exists>x. r = failed x)))
   \<and> (\<exists>r s'. unlikePost e postId s = (Done r, s') \<and> (r = succeeded \<or> (\<exists>x. r = failed x)))
   \<and> (\<exists>r s'. repost e postId s = (Done r, s') \<and> (r = succeeded \<or> (\<exists>x. r = failed x)))
   \<and> (\<exists>r s'. unrepost e postId s = (Done r, s') \<and> (r = succeeded \<or> (\<exists>x. r = failed x)))"
  using likePost_structured unlikePost_structured repost_structured unrepost_structured
  by blast

theorem actions_return_results_witness:
  "likePost faultyEnv ''post1'' publishedStore = (Done (failed ''Failed to like post''), publishedStore)
   \<and> unlikePost faultyEnv ''post1'' publishedStore =
       (Done (failed ''Failed to unlike post''), publishedStore)
   \<and> repost faultyEnv ''post1'' publishedStore = (Done (failed ''Failed to repost''), publishedStore)
   \<and> unrepost faultyEnv ''post1'' publishedStore =
       (Done (failed ''Failed to unrepost''), publishedStore)
   \<and> fst (repost aliceEnv ''post1'' publishedStore) = Done succeeded"
proof -
  have run: "likePost faultyEnv ''post1'' publishedStore =
        (Done (failed ''Failed to like post''), publishedStore)
      \<and> unlikePost faultyEnv ''post1'' publishedStore =
        (Done (failed ''Failed to unlike post''), publishedStore)
      \<and> repost faultyEnv ''post1'' publishedStore =
        (Done (failed ''Failed to repost''), publishedStore)
      \<and> unrepost faultyEnv ''post1'' publishedStore =
        (Done (failed ''Failed to unrepost''), publishedStore)
      \<and> fst (repost aliceEnv ''post1'' publishedStore) = Done succeeded"
    by code_simp
  from actions_return_results[of faultyEnv "''post1''" publishedStore]
    actions_return_results[of aliceEnv "''post1''" publishedStore] run
  show ?thesis by blast
qed


lemma no_identity_like:
  assumes "\<not> gunPresent e \<or> \<not> isLoggedIn e \<or> resolvedPub e = None"
  shows "\<exists>m. likePost e postId s = (Done (failed m), s)"
    and "\<exists>m. unlikePost e postId s = (Done (failed m), s)"
  using assms
  by (auto simp: likePost_def unlikePost_def resolvedPub_def split: option.splits)

lemma no_identity_repost:
  assumes "\<not> gunPresent e \<or> \<not> isLoggedIn e \<or> resolvedPub e = None"
  shows "\<exists>m. repost e postId s = (Done (failed m), s)"
    and "\<exists>m. unrepost e postId s = (Done (failed m), s)"
  using assms
  by (auto simp: repost_def unrepost_def split: option.splits)

lemma like_writes_keyed:
  assumes "map_of (snd (likePost e postId s)) p \<noteq> map_of s p
         \<or> map_of (snd (unlikePost e postId s)) p \<noteq> map_of s p"
  shows "\<exists>u. resolvedPub e = Some u
           \<and> (p = gunGet (appLikes postId) u \<or> p = gunGet (mirrorLikes postId) u)"
proof (cases "\<not> gunPresent e \<or> \<not> isLoggedIn e \<or> resolvedPub e = None")
  case True
  from no_identity_like[OF True, of postId s] assms show ?thesis by auto
next
  case False
  then obtain u where u: "gunPresent e" "isLoggedIn e" "resolvedPub e = Some u" by auto
  have l: "snd (likePost e postId s) = snd (likeWrites e postId u (VBool True) s)"
    using u by (auto simp: likePost_def resolvedPub_def snd_tryCatch split: option.splits)
  have n: "snd (unlikePost e postId s) = snd (likeWrites e postId u VNull s)"
    using u by (auto simp: unlikePost_def resolvedPub_def snd_tryCatch split: option.splits)
  from assms l n likeWrites_frame[of p postId u e _ s] u(3) show ?thesis by metis
qed

lemma repost_writes_keyed:
  assumes "map_of (snd (repost e postId s)) p \<noteq> map_of s p
         \<or> map_of (snd (unrepost e postId s)) p \<noteq> map_of s p"
  shows "\<exists>u own. resolvedPub e = Some u \<and> truthyPub (userIsPub e) = Some own
           \<and> (p = gunGet (appReposts postId) u \<or> p = gunGet (mirrorReposts postId) u
              \<or> p = ownPostsIndex own postId \<or> p = userPostsIndex u postId)"
proof (cases "\<not> gunPresent e \<or> \<not> isLoggedIn e \<or> resolvedPub e = None
              \<or> truthyPub (userIsPub e) = None")
  case True
  then have "snd (repost e postId s) = s" "snd (unrepost e postId s) = s"
    by (auto simp: repost_def unrepost_def split: option.splits)
  with assms show ?thesis by simp
next
  case False
  then obtain u own where u: "gunPresent e" "isLoggedIn e" "resolvedPub e = Some u"
    "truthyPub (userIsPub e) = Some own" by auto
  have l: "snd (repost e postId s) = snd (repostBody e postId u own s)"
    using u by (simp add: repost_def snd_tryCatch)
  have n: "snd (unrepost e postId s) = snd (unrepostBody e postId u own s)"
    using u by (simp add: unrepost_def snd_tryCatch)
  from assms l n repostBody_frame[of p postId u own e s] unrepostBody_frame[of p postId u own e s]
    u(3,4) show ?thesis by metis
qed

text \<open>
  C7. Without an authenticated identity (no store handle, not logged in, or no public
  key from either the helper or \<open>gun.user().is.pub\<close>) each of the four operations returns
  a failure with an error message and leaves the store as it was. Whatever path one of
  them does change is keyed by the identity's public key: for the likes the entry
  \<open>{userPub}\<close> of the post's record or of its mirror, for the reposts the entry \<open>{userPub}\<close>
  of the record or of its mirror, \<open>users/{userPub}/posts/{postId}\<close>, or the entry in the
  user's own graph.
\<close>

theorem interactions_need_identity:
  "(\<not> gunPresent e \<or> \<not> isLoggedIn e \<or> resolvedPub e = None \<longrightarrow>
      (\<exists>m. likePost e postId s = (Done (failed m), s))
      \<and> (\<exists>m. unlikePost e postId s = (Done (failed m), s))
      \<and> (\<exists>m. repost e postId s = (Done (failed m), s))
      \<and> (\<exists>m. unrepost e postId s = (Done (failed m), s)))
   \<and> (map_of (snd (likePost e postId s)) p \<noteq> map_of s p
        \<or> map_of (snd (unlikePost e postId s)) p \<noteq> map_of s p \<longrightarrow>
      (\<exists>u. resolvedPub e = Some u
         \<and> (p = gunGet (appLikes postId) u \<or> p = gunGet (mirrorLikes postId) u)))
   \<and> (map_of (snd (repost e postId s)) p \<noteq> map_of s p
        \<or> map_of (snd (unrepost e postId s)) p \<noteq> map_of s p \<longrightarrow>
      (\<exists>u own. resolvedPub e = Some u \<and> truthyPub (userIsPub e) = Some own
         \<and> (p = gunGet (appReposts postId) u \<or> p = gunGet (mirrorReposts postId) u
            \<or> p = ownPostsIndex own postId \<or> p = userPostsIndex u postId)))"
  using no_identity_like[of e postId s] no_identity_repost[of e postId s]
    like_writes_keyed[of e postId s p] repost_writes_keyed[of e postId s p]
  by blast

theorem interactions_need_identity_witness:
  "likePost loggedOutEnv ''post1'' publishedStore = (Done (failed ''Not authenticated''), publishedStore)
   \<and> repost loggedOutEnv ''post1'' publishedStore =
       (Done (failed ''Not authenticated''), publishedStore)
   \<and> map_of (snd (likePost aliceEnv ''post1'' publishedStore)) (gunGet (appLikes ''post1'') ''alice'')
       = Some (VBool True)
   \<and> resolvedPub aliceEnv = Some ''alice''
   \<and> map_of (snd (repost aliceEnv ''post1'' publishedStore)) (userPostsIndex ''alice'' ''post1'')
       = Some (repostEntry ''post1'' (VNum 1690000000000))"
proof -
  have run: "likePost loggedOutEnv ''post1'' publishedStore =
        (Done (failed ''Not authenticated''), publishedStore)
      \<and> repost loggedOutEnv ''post1'' publishedStore =
        (Done (failed ''Not authenticated''), publishedStore)
      \<and> map_of (snd (likePost aliceEnv ''post1'' publishedStore))
          (gunGet (appLikes ''post1'') ''alice'') = Some (VBool True)
      \<and> resolvedPub aliceEnv = Some ''alice''
      \<and> map_of (snd (repost aliceEnv ''post1'' publishedStore)) (userPostsIndex ''alice'' ''post1'')
          = Some (repostEntry ''post1'' (VNum 1690000000000))"
    by code_simp
  from interactions_need_identity[of loggedOutEnv "''post1''" publishedStore
      "gunGet (appLikes ''post1'') ''alice''"]
    interactions_need_identity[of aliceEnv "''post1''" publishedStore
      "gunGet (appLikes ''post1'') ''alice''"] run
  show ?thesis by blast
qed


section \<open>Reposts\<close>

lemma repost_paths_distinct:
  "gunGet (appReposts postId) u \<noteq> gunGet (mirrorReposts postId) u"
  "gunGet (appReposts postId) u \<noteq> ownPostsIndex own postId"
  "gunGet (appReposts postId) u \<noteq> userPostsIndex u postId"
  "gunGet (mirrorReposts postId) u \<noteq> ownPostsIndex own postId"
  "gunGet (mirrorReposts postId) u \<noteq> userPostsIndex u postId"
  "ownPostsIndex own postId \<noteq> userPostsIndex u postId"
  by (simp_all add: appReposts_def mirrorReposts_def ownPostsIndex_def userPostsIndex_def
        gunGet_def gun_def gunUser_def appName_def)

lemma success_succeeded: "success r \<Longrightarrow> r = succeeded \<or> (\<exists>x. r = failed x) \<Longrightarrow> r = succeeded"
  by (auto simp: failed_def)

lemma repostBody_success:
  assumes "fst (repostBody e postId u own s) = Done r" and "success r"
  shows "\<exists>orig. resolveOriginalPost e postId s = Some orig \<and>
     snd (repostBody e postId u own s) =
       AList.update (userPostsIndex u postId)
         (repostEntry postId (if truthy (objGet orig ''timestamp'') then objGet orig ''timestamp''
                              else VNum (dateNow e 0)))
       (AList.update (ownPostsIndex own postId)
         (repostEntry postId (if truthy (objGet orig ''timestamp'') then objGet orig ''timestamp''
                              else VNum (dateNow e 0)))
       (AList.update (gunGet (mirrorReposts postId) u)
         (VObj [(''timestamp'',
            VNum (dateNow e (if truthy (objGet orig ''timestamp'') then 1 else 2)))])
       (AList.update (gunGet (appReposts postId) u)
         (VObj [(''timestamp'',
            VNum (dateNow e (if truthy (objGet orig ''timestamp'') then 0 else 1)))]) s)))"
proof (cases "resolveOriginalPost e postId s")
  case None
  with assms show ?thesis by (auto simp: repostBody_def failed_def)
next
  case (Some orig)
  with assms show ?thesis
    by (auto simp: repostBody_def Let_def gunPut_def numeral_2_eq_2 split: if_splits)
qed

lemma unrepostBody_success:
  assumes "fst (unrepostBody e postId u own s) = Done r"
  shows "snd (unrepostBody e postId u own s) =
       AList.update (userPostsIndex u postId) VNull
       (AList.update (ownPostsIndex own postId) VNull
       (AList.update (gunGet (mirrorReposts postId) u) VNull
       (AList.update (gunGet (appReposts postId) u) VNull s)))"
  using assms by (auto simp: unrepostBody_def gunPut_def split: if_splits)

lemma repost_success_identity:
  assumes "fst (repost e postId s) = Done r" and "success r"
  shows "\<exists>u own. resolvedPub e = Some u \<and> truthyPub (userIsPub e) = Some own
      \<and> fst (repostBody e postId u own s) = Done r
      \<and> snd (repost e postId s) = snd (repostBody e postId u own s)"
proof (cases "\<not> gunPresent e \<or> \<not> isLoggedIn e \<or> resolvedPub e = None
              \<or> truthyPub (userIsPub e) = None")
  case True
  with assms show ?thesis
    by (auto simp: repost_def failed_def split: option.splits if_splits)
next
  case False
  then obtain u own where u: "gunPresent e" "isLoggedIn e" "resolvedPub e = Some u"
    "truthyPub (userIsPub e) = Some own" by auto
  from assms u have "fst (tryCatch (repostBody e postId u own s) (failed ''Failed to repost'')) = Done r"
    by (simp add: repost_def)
  with assms(2) have "fst (repostBody e postId u own s) = Done r"
    by (auto simp: fst_tryCatch failed_def split: completion.splits)
  with u show ?thesis by (simp add: repost_def snd_tryCatch)
qed

lemma unrepost_success_identity:
  assumes "fst (unrepost e postId s) = Done r" and "success r"
  shows "\<exists>u own. resolvedPub e = Some u \<and> truthyPub (userIsPub e) = Some own
      \<and> fst (unrepostBody e postId u own s) = Done r
      \<and> snd (unrepost e postId s) = snd (unrepostBody e postId u own s)"
proof (cases "\<not> gunPresent e \<or> \<not> isLoggedIn e \<or> resolvedPub e = None
              \<or> truthyPub (userIsPub e) = None")
  case True
  with assms show ?thesis
    by (auto simp: unrepost_def failed_def split: option.splits if_splits)
next
  case False
  then obtain u own where u: "gunPresent e" "isLoggedIn e" "resolvedPub e = Some u"
    "truthyPub (userIsPub e) = Some own" by auto
  from assms u have "fst (tryCatch (unrepostBody e postId u own s) (failed ''Failed to unrepost'')) = Done r"
    by (simp add: unrepost_def)
  with assms(2) have "fst (unrepostBody e postId u own s) = Done r"
    by (auto simp: fst_tryCatch failed_def split: completion.splits)
  with u show ?thesis by (simp add: unrepost_def snd_tryCatch)
qed

lemma repost_succeeds:
  assumes "gunPresent e" and "isLoggedIn e" and "resolvedPub e = Some u"
    and "truthyPub (userIsPub e) = Some own"
    and "resolveOriginalPost e postId s = Some orig"
    and "\<forall>p. \<not> putThrows e p"
  shows "fst (repost e postId s) = Done succeeded"
proof -
  have np: "putThrows e p = False" for p using assms(6) by blast
  show ?thesis
    using assms(1-5) by (simp add: repost_def repostBody_def Let_def gunPut_def np)
qed

lemma unrepost_succeeds:
  assumes "gunPresent e" and "isLoggedIn e" and "resolvedPub e = Some u"
    and "truthyPub (userIsPub e) = Some own"
    and "\<forall>p. \<not> putThrows e p"
  shows "fst (unrepost e postId s) = Done succeeded"
proof -
  have np: "putThrows e p = False" for p using assms(5) by blast
  show ?thesis
    using assms(1-4) by (simp add: unrepost_def unrepostBody_def gunPut_def np)
qed

text \<open>
  C4. A \<open>repost\<close> that returns success has resolved the post and has set, under the
  user's public key, a \<open>{timestamp}\<close> entry in the post's repost record (and in its
  mirror), and the entry \<open>{id: postId, timestamp, reposted: true}\<close> at
  \<open>users/{userPub}/posts/{postId}\<close> (and in the user's own graph), the timestamp being the
  payload's, or the clock's when the payload has none. An \<open>unrepost\<close> that returns success
  has set all of them to \<open>null\<close>. For an authenticated user whose writes go through,
  \<open>repost\<close> does succeed on every post id it can resolve, and \<open>unrepost\<close> on every post id.
\<close>

theorem repost_unrepost_writes:
  "(fst (repost e postId s) = Done r \<and> success r \<longrightarrow>
      (\<exists>u own orig t t'. resolvedPub e = Some u \<and> truthyPub (userIsPub e) = Some own
         \<and> resolveOriginalPost e postId s = Some orig
         \<and> gunOnce (snd (repost e postId s)) (gunGet (appReposts postId) u)
             = VObj [(''timestamp'', VNum t)]
         \<and> gunOnce (snd (repost e postId s)) (gunGet (mirrorReposts postId) u)
             = VObj [(''timestamp'', VNum t')]
         \<and> gunOnce (snd (repost e postId s)) (userPostsIndex u postId)
             = VObj [(''id'', VStr postId),
                     (''timestamp'', if truthy (objGet orig ''timestamp'')
                        then objGet orig ''timestamp'' else VNum (dateNow e 0)),
                     (''reposted'', VBool True)]
         \<and> gunOnce (snd (repost e postId s)) (ownPostsIndex own postId)
             = gunOnce (snd (repost e postId s)) (userPostsIndex u postId)))
   \<and> (fst (unrepost e postId s) = Done r \<and> success r \<longrightarrow>
      (\<exists>u own. resolvedPub e = Some u \<and> truthyPub (userIsPub e) = Some own
         \<and> gunOnce (snd (unrepost e postId s)) (gunGet (appReposts postId) u) = VNull
         \<and> gunOnce (snd (unrepost e postId s)) (gunGet (mirrorReposts postId) u) = VNull
         \<and> gunOnce (snd (unrepost e postId s)) (userPostsIndex u postId) = VNull
         \<and> gunOnce (snd (unrepost e postId s)) (ownPostsIndex own postId) = VNull))
   \<and> (gunPresent e \<and> isLoggedIn e \<and> resolvedPub e \<noteq> None \<and> truthyPub (userIsPub e) \<noteq> None
        \<and> (\<forall>p. \<not> putThrows e p) \<longrightarrow>
      (resolveOriginalPost e postId s \<noteq> None \<longrightarrow> fst (repost e postId s) = Done succeeded)
      \<and> fst (unrepost e postId s) = Done succeeded)"
proof (intro conjI impI)
  assume a: "fst (repost e postId s) = Done r \<and> success r"
  then obtain u own where u: "resolvedPub e = Some u" "truthyPub (userIsPub e) = Some own"
    "fst (repostBody e postId u own s) = Done r"
    "snd (repost e postId s) = snd (repostBody e postId u own s)"
    using repost_success_identity by blast
  from repostBody_success[OF u(3)] a obtain orig where o:
    "resolveOriginalPost e postId s = Some orig"
    "snd (repostBody e postId u own s) =
       AList.update (userPostsIndex u postId)
         (repostEntry postId (if truthy (objGet orig ''timestamp'') then objGet orig ''timestamp''
                              else VNum (dateNow e 0)))
       (AList.update (ownPostsIndex own postId)
         (repostEntry postId (if truthy (objGet orig ''timestamp'') then objGet orig ''timestamp''
                              else VNum (dateNow e 0)))
       (AList.update (gunGet (mirrorReposts postId) u)
         (VObj [(''timestamp'',
            VNum (dateNow e (if truthy (objGet orig ''timestamp'') then 1 else 2)))])
       (AList.update (gunGet (appReposts postId) u)
         (VObj [(''timestamp'',
            VNum (dateNow e (if truthy (objGet orig ''timestamp'') then 0 else 1)))]) s)))"
    by blast
  show "\<exists>u own orig t t'. resolvedPub e = Some u \<and> truthyPub (userIsPub e) = Some own
         \<and> resolveOriginalPost e postId s = Some orig
         \<and> gunOnce (snd (repost e postId s)) (gunGet (appReposts postId) u)
             = VObj [(''timestamp'', VNum t)]
         \<and> gunOnce (snd (repost e postId s)) (gunGet (mirrorReposts postId) u)
             = VObj [(''timestamp'', VNum t')]
         \<and> gunOnce (snd (repost e postId s)) (userPostsIndex u postId)
             = VObj [(''id'', VStr postId),
                     (''timestamp'', if truthy (objGet orig ''timestamp'')
                        then objGet orig ''timestamp'' else VNum (dateNow e 0)),
                     (''reposted'', VBool True)]
         \<and> gunOnce (snd (repost e postId s)) (ownPostsIndex own postId)
             = gunOnce (snd (repost e postId s)) (userPostsIndex u postId)"
    apply (rule exI[of _ u], rule exI[of _ own], rule exI[of _ orig])
    apply (rule exI[of _ "dateNow e (if truthy (objGet orig ''timestamp'') then 0 else 1)"])
    apply (rule exI[of _ "dateNow e (if truthy (objGet orig ''timestamp'') then 1 else 2)"])
    using u(1,2) o(1)
    by (simp add: u(4) o(2) gunOnce_update repost_paths_distinct repost_paths_distinct[symmetric]
          repostEntry_def)
next
  assume a: "fst (unrepost e postId s) = Done r \<and> success r"
  then obtain u own where u: "resolvedPub e = Some u" "truthyPub (userIsPub e) = Some own"
    "fst (unrepostBody e postId u own s) = Done r"
    "snd (unrepost e postId s) = snd (unrepostBody e postId u own s)"
    using unrepost_success_identity by blast
  show "\<exists>u own. resolvedPub e = Some u \<and> truthyPub (userIsPub e) = Some own
         \<and> gunOnce (snd (unrepost e postId s)) (gunGet (appReposts postId) u) = VNull
         \<and> gunOnce (snd (unrepost e postId s)) (gunGet (mirrorReposts postId) u) = VNull
         \<and> gunOnce (snd (unrepost e postId s)) (userPostsIndex u postId) = VNull
         \<and> gunOnce (snd (unrepost e postId s)) (ownPostsIndex own postId) = VNull"
    apply (rule exI[of _ u], rule exI[of _ own])
    using u(1,2)
    by (simp add: u(4) unrepostBody_success[OF u(3)] gunOnce_update repost_paths_distinct
          repost_paths_distinct[symmetric])
next
  assume "gunPresent e \<and> isLoggedIn e \<and> resolvedPub e \<noteq> None \<and> truthyPub (userIsPub e) \<noteq> None
        \<and> (\<forall>p. \<not> putThrows e p)"
    and "resolveOriginalPost e postId s \<noteq> None"
  then show "fst (repost e postId s) = Done succeeded"
    using repost_succeeds[of e _ _ postId s] by blast
next
  assume "gunPresent e \<and> isLoggedIn e \<and> resolvedPub e \<noteq> None \<and> truthyPub (userIsPub e) \<noteq> None
        \<and> (\<forall>p. \<not> putThrows e p)"
  then show "fst (unrepost e postId s) = Done succeeded"
    using unrepost_succeeds[of e _ _ postId s] by blast
qed


theorem repost_unrepost_writes_witness:
  "fst (repost aliceEnv ''post1'' publishedStore) = Done succeeded
   \<and> gunOnce (snd (repost aliceEnv ''post1'' publishedStore)) (gunGet (appReposts ''post1'') ''alice'')
       = VObj [(''timestamp'', VNum 1700000000000)]
   \<and> gunOnce (snd (repost aliceEnv ''post1'' publishedStore)) (userPostsIndex ''alice'' ''post1'')
       = VObj [(''id'', VStr ''post1''), (''timestamp'', VNum 1690000000000),
               (''reposted'', VBool True)]
   \<and> fst (unrepost aliceEnv ''post1'' repostedStore) = Done succeeded
   \<and> gunOnce (snd (unrepost aliceEnv ''post1'' repostedStore))
        (gunGet (appReposts ''post1'') ''alice'') = VNull
   \<and> gunOnce (snd (unrepost aliceEnv ''post1'' repostedStore))
        (userPostsIndex ''alice'' ''post1'') = VNull"
proof -
  have run: "fst (repost aliceEnv ''post1'' publishedStore) = Done succeeded
      \<and> success succeeded
      \<and> resolvedPub aliceEnv = Some ''alice''
      \<and> resolveOriginalPost aliceEnv ''post1'' publishedStore =
          Some [(''authorPub'', VStr ''bob''), (''text'', VStr ''hello''),
                (''timestamp'', VNum 1690000000000)]
      \<and> gunOnce (snd (repost aliceEnv ''post1'' publishedStore))
          (gunGet (appReposts ''post1'') ''alice'') = VObj [(''timestamp'', VNum 1700000000000)]
      \<and> fst (unrepost aliceEnv ''post1'' repostedStore) = Done succeeded"
    by code_simp
  from repost_unrepost_writes[of aliceEnv "''post1''" publishedStore succeeded] run
  have a: "gunOnce (snd (repost aliceEnv ''post1'' publishedStore)) (userPostsIndex ''alice'' ''post1'')
       = VObj [(''id'', VStr ''post1''), (''timestamp'', VNum 1690000000000),
               (''reposted'', VBool True)]"
    by (auto simp: objGet_def)
  from repost_unrepost_writes[of aliceEnv "''post1''" repostedStore succeeded] run
  have b: "gunOnce (snd (unrepost aliceEnv ''post1'' repostedStore))
        (gunGet (appReposts ''post1'') ''alice'') = VNull
      \<and> gunOnce (snd (unrepost aliceEnv ''post1'' repostedStore))
        (userPostsIndex ''alice'' ''post1'') = VNull"
    by auto
  from run a b show ?thesis by simp
qed


lemma repostCount_store:
  "getRepostCount (postDetailPost s postId payload now prof) =
     card {k. repostEntryOk k (gunOnce s (gunGet (appReposts postId) k))}"
proof -
  have "{k. \<exists>v. map_of (loadReposts s postId) k = Some v \<and> truthy v \<and> \<not> startsWith k ''_''} =
      {k. repostEntryOk k (gunOnce s (gunGet (appReposts postId) k))}"
    by (auto simp: loadReposts_def map_of_collectEntries set_gunMapOnce gunOnce_def
          repostEntryOk_def split: if_splits option.splits)
  then show ?thesis
    by (simp add: getRepostCount_def postDetailPost_def length_countedKeys)
qed

lemma repost_unrepost_store:
  assumes "fst (repost e postId s) = Done r1" and "success r1"
    and "fst (unrepost e postId (snd (repost e postId s))) = Done r2" and "success r2"
  shows "\<exists>u own. resolvedPub e = Some u \<and> truthyPub (userIsPub e) = Some own
     \<and> (\<forall>q. gunOnce (snd (unrepost e postId (snd (repost e postId s)))) q =
           (if q = gunGet (appReposts postId) u \<or> q = gunGet (mirrorReposts postId) u
               \<or> q = ownPostsIndex own postId \<or> q = userPostsIndex u postId
            then VNull else gunOnce s q))"
proof -
  define s1 where "s1 = snd (repost e postId s)"
  from repost_success_identity[OF assms(1,2)] obtain u own where
    u: "resolvedPub e = Some u" "truthyPub (userIsPub e) = Some own"
      "s1 = snd (repostBody e postId u own s)"
    unfolding s1_def by blast
  from unrepost_success_identity[OF assms(3,4)] u(1,2) have
    v: "fst (unrepostBody e postId u own s1) = Done r2"
      "snd (unrepost e postId s1) = snd (unrepostBody e postId u own s1)"
    unfolding s1_def by auto
  have g1: "gunOnce s1 q = gunOnce s q"
    if "q \<noteq> gunGet (appReposts postId) u" "q \<noteq> gunGet (mirrorReposts postId) u"
      "q \<noteq> ownPostsIndex own postId" "q \<noteq> userPostsIndex u postId" for q
    using that by (simp add: gunOnce_def u(3) repostBody_frame)
  have g2: "gunOnce (snd (unrepost e postId s1)) q =
           (if q = gunGet (appReposts postId) u \<or> q = gunGet (mirrorReposts postId) u
               \<or> q = ownPostsIndex own postId \<or> q = userPostsIndex u postId
            then VNull else gunOnce s1 q)" for q
    by (simp add: v(2) unrepostBody_success[OF v(1)] gunOnce_update)
  have "gunOnce (snd (unrepost e postId s1)) q =
           (if q = gunGet (appReposts postId) u \<or> q = gunGet (mirrorReposts postId) u
               \<or> q = ownPostsIndex own postId \<or> q = userPostsIndex u postId
            then VNull else gunOnce s q)" for q
    using g1[of q] by (simp add: g2)
  with u(1,2) show ?thesis unfolding s1_def by blast
qed

text \<open>
  C2 (as amended). After a successful \<open>repost\<close> followed by a successful \<open>unrepost\<close>, each
  of the four paths \<open>repost\<close> wrote holds \<open>null\<close> and every other path holds what it held
  before. When the four entries were absent or \<open>null\<close> before the repost, this is the
  pre-repost state up to reading a tombstone as a missing entry, and the repost count
  of the post is what it was.
\<close>

theorem repost_then_unrepost:
  assumes "fst (repost e postId s) = Done r1" and "success r1"
    and "fst (unrepost e postId (snd (repost e postId s))) = Done r2" and "success r2"
  shows "\<exists>u own. resolvedPub e = Some u \<and> truthyPub (userIsPub e) = Some own
     \<and> gunOnce (snd (unrepost e postId (snd (repost e postId s))))
          (gunGet (appReposts postId) u) = VNull
     \<and> gunOnce (snd (unrepost e postId (snd (repost e postId s))))
          (gunGet (mirrorReposts postId) u) = VNull
     \<and> gunOnce (snd (unrepost e postId (snd (repost e postId s))))
          (ownPostsIndex own postId) = VNull
     \<and> gunOnce (snd (unrepost e postId (snd (repost e postId s))))
          (userPostsIndex u postId) = VNull
     \<and> (\<forall>q. q \<noteq> gunGet (appReposts postId) u \<and> q \<noteq> gunGet (mirrorReposts postId) u
            \<and> q \<noteq> ownPostsIndex own postId \<and> q \<noteq> userPostsIndex u postId \<longrightarrow>
          gunOnce (snd (unrepost e postId (snd (repost e postId s)))) q = gunOnce s q)
     \<and> (absentOrNull (gunOnce s (gunGet (appReposts postId) u))
          \<and> absentOrNull (gunOnce s (gunGet (mirrorReposts postId) u))
          \<and> absentOrNull (gunOnce s (ownPostsIndex own postId))
          \<and> absentOrNull (gunOnce s (userPostsIndex u postId)) \<longrightarrow>
        (\<forall>q. sameEntry (gunOnce (snd (unrepost e postId (snd (repost e postId s)))) q)
               (gunOnce s q))
        \<and> getRepostCount (postDetailPost (snd (unrepost e postId (snd (repost e postId s))))
             postId payload now prof)
           = getRepostCount (postDetailPost s postId payload now prof))"
proof -
  define s2 where "s2 = snd (unrepost e postId (snd (repost e postId s)))"
  from repost_unrepost_store[OF assms] obtain u own where
    u: "resolvedPub e = Some u" "truthyPub (userIsPub e) = Some own"
    and st: "\<And>q. gunOnce s2 q =
           (if q = gunGet (appReposts postId) u \<or> q = gunGet (mirrorReposts postId) u
               \<or> q = ownPostsIndex own postId \<or> q = userPostsIndex u postId
            then VNull else gunOnce s q)"
    unfolding s2_def by blast
  have restored: "(\<forall>q. sameEntry (gunOnce s2 q) (gunOnce s q))
      \<and> getRepostCount (postDetailPost s2 postId payload now prof)
         = getRepostCount (postDetailPost s postId payload now prof)"
    if pre: "absentOrNull (gunOnce s (gunGet (appReposts postId) u))
          \<and> absentOrNull (gunOnce s (gunGet (mirrorReposts postId) u))
          \<and> absentOrNull (gunOnce s (ownPostsIndex own postId))
          \<and> absentOrNull (gunOnce s (userPostsIndex u postId))"
  proof -
    have same: "sameEntry (gunOnce s2 q) (gunOnce s q)" for q
      using pre by (auto simp: st sameEntry_def absentOrNull_def)
    have "repostEntryOk k (gunOnce s2 (gunGet (appReposts postId) k)) =
        repostEntryOk k (gunOnce s (gunGet (appReposts postId) k))" for k
      using same[of "gunGet (appReposts postId) k"]
      by (auto simp: sameEntry_def absentOrNull_def repostEntryOk_def)
    then have "getRepostCount (postDetailPost s2 postId payload now prof)
         = getRepostCount (postDetailPost s postId payload now prof)"
      by (simp add: repostCount_store)
    with same show ?thesis by blast
  qed
  show ?thesis
    unfolding s2_def[symmetric]
    apply (rule exI[of _ u], rule exI[of _ own])
    using u restored by (simp add: st)
qed


theorem repost_then_unrepost_witness:
  "gunOnce publishedStore (userPostsIndex ''alice'' ''post1'') = VUndef
   \<and> gunOnce (snd (unrepost aliceEnv ''post1'' (snd (repost aliceEnv ''post1'' publishedStore))))
        (userPostsIndex ''alice'' ''post1'') = VNull
   \<and> getRepostCount (postDetailPost
          (snd (unrepost aliceEnv ''post1'' (snd (repost aliceEnv ''post1'' publishedStore))))
          ''post1'' [] 0 noProfile)
       = getRepostCount (postDetailPost publishedStore ''post1'' [] 0 noProfile)"
proof -
  have run: "fst (repost aliceEnv ''post1'' publishedStore) = Done succeeded
      \<and> success succeeded
      \<and> fst (unrepost aliceEnv ''post1'' (snd (repost aliceEnv ''post1'' publishedStore)))
          = Done succeeded
      \<and> resolvedPub aliceEnv = Some ''alice''
      \<and> truthyPub (userIsPub aliceEnv) = Some ''alice''
      \<and> gunOnce publishedStore (gunGet (appReposts ''post1'') ''alice'') = VUndef
      \<and> gunOnce publishedStore (gunGet (mirrorReposts ''post1'') ''alice'') = VUndef
      \<and> gunOnce publishedStore (ownPostsIndex ''alice'' ''post1'') = VUndef
      \<and> gunOnce publishedStore (userPostsIndex ''alice'' ''post1'') = VUndef"
    by code_simp
  from repost_then_unrepost[of aliceEnv "''post1''" publishedStore succeeded succeeded
      "[]" 0 noProfile] run
  show ?thesis by (auto simp: absentOrNull_def)
qed

text \<open>
  The claim as it was stated fails when one of the entries held something before the
  repost, because \<open>unrepost\<close> writes \<open>null\<close> and not the former value: on a post the user
  had already reposted the repost count goes from 1 to 0, and on a post of the user's
  own the entry in her post index is lost.
\<close>

theorem repost_unrepost_not_restored:
  "fst (repost aliceEnv ''post1'' repostedStore) = Done succeeded
   \<and> fst (unrepost aliceEnv ''post1'' (snd (repost aliceEnv ''post1'' repostedStore)))
       = Done succeeded
   \<and> getRepostCount (postDetailPost repostedStore ''post1'' [] 0 noProfile) = 1
   \<and> getRepostCount (postDetailPost
          (snd (unrepost aliceEnv ''post1'' (snd (repost aliceEnv ''post1'' repostedStore))))
          ''post1'' [] 0 noProfile) = 0
   \<and> fst (repost aliceEnv ''post9'' authoredStore) = Done succeeded
   \<and> fst (unrepost aliceEnv ''post9'' (snd (repost aliceEnv ''post9'' authoredStore)))
       = Done succeeded
   \<and> gunOnce authoredStore (gunGet (appReposts ''post9'') ''alice'') = VUndef
   \<and> gunOnce authoredStore (userPostsIndex ''alice'' ''post9'')
       = VObj [(''id'', VStr ''post9''), (''timestamp'', VNum 1690000000009)]
   \<and> gunOnce (snd (unrepost aliceEnv ''post9'' (snd (repost aliceEnv ''post9'' authoredStore))))
        (userPostsIndex ''alice'' ''post9'') = VNull"
  by code_simp

section \<open>Subscriptions: redelivery and the bounded wait\<close>

lemma pdRun_Nil: "pdRun [] s = s"
  by (simp add: pdRun_def)

lemma pdRun_Cons: "pdRun (ev # evs) s = pdRun evs (pdStep ev s)"
  by (simp add: pdRun_def)

lemma pdRun_append: "pdRun (evs @ evs') s = pdRun evs' (pdRun evs s)"
  by (simp add: pdRun_def)

lemma loadedOnce_step: "loadedOnce s \<Longrightarrow> loadedOnce (pdStep ev s)"
  by (cases ev) (auto simp: loadedOnce_def loadPostFromSoul_def split: gval.splits)

lemma loadedOnce_run: "loadedOnce s \<Longrightarrow> loadedOnce (pdRun evs s)"
  by (induction evs arbitrary: s) (simp_all add: pdRun_Nil pdRun_Cons loadedOnce_step)

lemma loadedOnce_effect: "loadedOnce (postDetailEffect e)"
  by (simp add: loadedOnce_def postDetailEffect_def pdInitial_def)

lemma distinct_map_sort_key: "distinct (map g (sort_key f xs)) = distinct (map g xs)"
proof -
  have "mset (map g (sort_key f xs)) = mset (map g xs)"
    by simp
  then show ?thesis by (rule mset_eq_imp_distinct_iff)
qed

lemma update_keyed:
  "map g (map snd m) = map fst m \<Longrightarrow> g p = k \<Longrightarrow>
   map g (map snd (AList.update k p m)) = map fst (AList.update k p m)"
  by (induction m) auto

lemma keyedById_step: "keyedById s \<Longrightarrow> keyedById (onUserPost d s)"
proof -
  assume k: "keyedById s"
  show ?thesis
  proof (cases "snd d")
    case None
    with k show ?thesis by (simp add: onUserPost_def)
  next
    case (Some pw)
    show ?thesis
    proof (cases "pw_id pw = []")
      case True
      with Some k show ?thesis by (simp add: onUserPost_def)
    next
      case False
      define p where "p = toPost (fst d) pw"
      define m where "m = AList.update (post_id p) p (postsMap s)"
      have d: "distinct (map fst m)"
        using k by (simp add: m_def keyedById_def distinct_update)
      have e: "map post_id (map snd m) = map fst m"
        unfolding m_def using k by (intro update_keyed) (simp_all add: keyedById_def)
      have "onUserPost d s = s\<lparr>postsMap := m, up_posts := newestFirst (map snd m),
          up_loading := False\<rparr>"
        using Some False by (simp add: onUserPost_def Let_def p_def m_def)
      moreover have "distinct (map post_id (newestFirst (map snd m)))"
        by (simp only: newestFirst_def distinct_map_sort_key e d)
      ultimately show ?thesis
        using d e by (simp only: keyedById_def) simp
    qed
  qed
qed

lemma keyedById_run: "keyedById s \<Longrightarrow> keyedById (upRun ds s)"
  by (induction ds arbitrary: s) (simp_all add: upRun_def keyedById_step)

lemma keyedById_loadPosts: "keyedById (loadPosts ready userPub upInitial)"
  by (simp add: keyedById_def loadPosts_def upInitial_def)

text \<open>
  C5. Whatever is delivered, however often and on whichever channel, the post-detail
  lookup issues the read of a post soul at most once, and the user-posts subscription
  holds at most one entry per post id, in its map and in the list it hands to the
  component.
\<close>

theorem redelivery_is_deduplicated:
  "length (pd_loaded (pdRun evs (postDetailEffect e))) \<le> 1
   \<and> distinct (map fst (postsMap (upRun ds (loadPosts ready userPub upInitial))))
   \<and> distinct (map post_id (up_posts (upRun ds (loadPosts ready userPub upInitial))))"
  using loadedOnce_run[OF loadedOnce_effect, of evs e]
    keyedById_run[OF keyedById_loadPosts, of ds ready userPub]
  by (simp add: loadedOnce_def keyedById_def)

theorem redelivery_is_deduplicated_witness:
  "pd_loaded (pdRun [Deliver HashTable (VStr ''soul1''), Deliver (TimelineDay 0) (VStr ''soul1''),
       Deliver (TimelineDay 3) (VStr ''soul2''), Deliver HashTable (VStr ''soul1'')]
     (postDetailEffect readyEnv)) = [''soul1'']
   \<and> map fst (postsMap (upRun [(5, Some aliceDelivery), (6, None), (7, Some aliceDelivery)]
        (loadPosts True ''alice'' upInitial))) = [''post1'']
   \<and> map post_id (up_posts (upRun [(5, Some aliceDelivery), (6, None), (7, Some aliceDelivery)]
        (loadPosts True ''alice'' upInitial))) = [''post1'']"
proof -
  have run: "pd_loaded (pdRun [Deliver HashTable (VStr ''soul1''),
       Deliver (TimelineDay 0) (VStr ''soul1''),
       Deliver (TimelineDay 3) (VStr ''soul2''), Deliver HashTable (VStr ''soul1'')]
     (postDetailEffect readyEnv)) = [''soul1'']
   \<and> map fst (postsMap (upRun [(5, Some aliceDelivery), (6, None), (7, Some aliceDelivery)]
        (loadPosts True ''alice'' upInitial))) = [''post1'']
   \<and> map post_id (up_posts (upRun [(5, Some aliceDelivery), (6, None), (7, Some aliceDelivery)]
        (loadPosts True ''alice'' upInitial))) = [''post1'']"
    by code_simp
  from redelivery_is_deduplicated[of
      "[Deliver HashTable (VStr ''soul1''), Deliver (TimelineDay 0) (VStr ''soul1''),
        Deliver (TimelineDay 3) (VStr ''soul2''), Deliver HashTable (VStr ''soul1'')]"
      readyEnv "[(5, Some aliceDelivery), (6, None), (7, Some aliceDelivery)]" True "''alice''"]
    run
  show ?thesis by blast
qed


lemma elapsedOf_Cons: "elapsedOf (ev # evs) = elapseOf ev + elapsedOf evs"
  by (simp add: elapsedOf_def)

lemma elapsedOf_Nil: "elapsedOf [] = 0"
  by (simp add: elapsedOf_def)

lemma pd_elapsed_step: "pd_elapsed (pdStep ev s) = pd_elapsed s + elapseOf ev"
  by (cases ev) (auto simp: loadPostFromSoul_def split: gval.splits)

lemma pd_elapsed_run: "pd_elapsed (pdRun evs s) = pd_elapsed s + elapsedOf evs"
  by (induction evs arbitrary: s)
     (simp_all add: pdRun_Nil pdRun_Cons elapsedOf_Nil elapsedOf_Cons pd_elapsed_step)

lemma timelyError_step: "timelyError s \<Longrightarrow> timelyError (pdStep ev s)"
  by (cases ev) (auto simp: timelyError_def loadPostFromSoul_def split: gval.splits)

lemma timelyError_run: "timelyError s \<Longrightarrow> timelyError (pdRun evs s)"
  by (induction evs arbitrary: s) (simp_all add: pdRun_Nil pdRun_Cons timelyError_step)

lemma timelyError_effect: "timelyError (postDetailEffect e)"
  by (simp add: timelyError_def postDetailEffect_def pdInitial_def)

lemma settled_step: "settled s \<Longrightarrow> settled (pdStep ev s)"
  by (cases ev) (auto simp: settled_def loadPostFromSoul_def split: gval.splits)

lemma settled_run: "settled s \<Longrightarrow> settled (pdRun evs s)"
  by (induction evs arbitrary: s) (simp_all add: pdRun_Nil pdRun_Cons settled_step)

lemma delivered_in_time:
  assumes "elapsedOf evs1 < timeoutMs" and "subscribed ch" and "soul \<noteq> []"
  shows "pd_error (pdRun (evs1 @ Deliver ch (VStr soul) # evs2) (postDetailEffect e))
           \<noteq> Some ''Post not found''"
proof -
  define s1 where "s1 = pdRun evs1 (postDetailEffect e)"
  have t: "timelyError s1"
    unfolding s1_def by (rule timelyError_run[OF timelyError_effect])
  have "pd_elapsed s1 = elapsedOf evs1"
    by (simp add: s1_def pd_elapsed_run postDetailEffect_def pdInitial_def)
  with assms(1) t have ne: "pd_error s1 \<noteq> Some ''Post not found''"
    by (auto simp: timelyError_def)
  have "settled (pdStep (Deliver ch (VStr soul)) s1)"
    using ne t assms(2,3) by (auto simp: settled_def timelyError_def loadPostFromSoul_def)
  then have "settled (pdRun evs2 (pdStep (Deliver ch (VStr soul)) s1))"
    by (rule settled_run)
  then show ?thesis
    by (simp add: pdRun_append pdRun_Cons s1_def settled_def)
qed

lemma silence_times_out:
  assumes "\<forall>ev \<in> set evs. silent ev"
    and "timedOut s \<or> (waiting s \<and> timeoutMs \<le> pd_elapsed s + elapsedOf evs)"
  shows "timedOut (pdRun evs s)"
  using assms
proof (induction evs arbitrary: s)
  case Nil
  then show ?case by (auto simp: pdRun_Nil elapsedOf_Nil waiting_def)
next
  case (Cons ev evs)
  have sil: "silent ev" and rest: "\<forall>ev \<in> set evs. silent ev"
    using Cons.prems(1) by simp_all
  have "timedOut (pdStep ev s)
      \<or> (waiting (pdStep ev s) \<and> timeoutMs \<le> pd_elapsed (pdStep ev s) + elapsedOf evs)"
  proof (cases ev)
    case (Elapse d)
    with Cons.prems(2) show ?thesis
      by (auto simp: timedOut_def waiting_def elapsedOf_Cons)
  next
    case (Deliver ch v)
    with sil Cons.prems(2) show ?thesis
      by (auto simp: elapsedOf_Cons)
  qed (use sil in simp_all)
  with Cons.IH[OF rest] show ?case by (simp add: pdRun_Cons)
qed

lemma waiting_effect: "started e \<Longrightarrow> waiting (postDetailEffect e)"
  by (simp add: started_def waiting_def postDetailEffect_def pdInitial_def timeoutMs_def)

lemma silence_keeps_waiting:
  assumes "\<forall>ev \<in> set evs. silent ev" and "pd_elapsed s + elapsedOf evs < timeoutMs"
  shows "pdRun evs s = s\<lparr>pd_elapsed := pd_elapsed s + elapsedOf evs\<rparr>"
  using assms
proof (induction evs arbitrary: s)
  case Nil
  then show ?case by (simp add: pdRun_Nil elapsedOf_Nil)
next
  case (Cons ev evs)
  have sil: "silent ev" and rest: "\<forall>ev \<in> set evs. silent ev"
    using Cons.prems(1) by simp_all
  have step: "pdStep ev s = s\<lparr>pd_elapsed := pd_elapsed s + elapseOf ev\<rparr>"
  proof (cases ev)
    case (Elapse d)
    with Cons.prems(2) show ?thesis by (simp add: elapsedOf_Cons)
  next
    case (Deliver ch v)
    with sil show ?thesis by auto
  qed (use sil in simp_all)
  have "pd_elapsed (pdStep ev s) + elapsedOf evs < timeoutMs"
    using Cons.prems(2) by (simp add: step elapsedOf_Cons)
  from Cons.IH[OF rest this] show ?case
    by (simp add: pdRun_Cons step elapsedOf_Cons add.assoc)
qed

lemma data_not_found:
  assumes "started e" and "\<forall>ev \<in> set evs1. silent ev" and "elapsedOf evs1 < timeoutMs"
    and "subscribed ch" and "soul \<noteq> []" and "\<not> (truthy postData \<and> typeofObject postData)"
  shows "pd_error (pdRun (evs1 @ [Deliver ch (VStr soul), PostData postData]) (postDetailEffect e))
        = Some ''Post data not found''
      \<and> pd_elapsed (pdRun (evs1 @ [Deliver ch (VStr soul), PostData postData])
          (postDetailEffect e)) < timeoutMs"
proof -
  have "pdRun evs1 (postDetailEffect e) =
      (postDetailEffect e)\<lparr>pd_elapsed := pd_elapsed (postDetailEffect e) + elapsedOf evs1\<rparr>"
    using assms(2,3)
    by (intro silence_keeps_waiting) (simp_all add: postDetailEffect_def pdInitial_def)
  then show ?thesis
    using assms
    by (auto simp: pdRun_append pdRun_Cons pdRun_Nil started_def postDetailEffect_def
          pdInitial_def loadPostFromSoul_def)
qed

text \<open>
  C6 (as amended). The error \<open>Post not found\<close> is only ever there once 8000 ms have
  passed. If a post soul arrives on a subscribed channel before that, \<open>Post not found\<close>
  is never reported, whatever follows. If the lookup started and nothing but silence
  arrives while 8000 ms pass, \<open>Post not found\<close> is reported and loading ends. A soul that
  arrives in time and whose payload then reads back as something other than an object
  is reported at once as \<open>Post data not found\<close>, before the bound.
\<close>

theorem not_found_after_timeout:
  "(pd_error (pdRun evs (postDetailEffect e)) = Some ''Post not found'' \<longrightarrow>
      timeoutMs \<le> pd_elapsed (pdRun evs (postDetailEffect e)))
   \<and> (elapsedOf evs1 < timeoutMs \<and> subscribed ch \<and> soul \<noteq> [] \<longrightarrow>
      pd_error (pdRun (evs1 @ Deliver ch (VStr soul) # evs2) (postDetailEffect e))
        \<noteq> Some ''Post not found'')
   \<and> (started e \<and> (\<forall>ev \<in> set evs. silent ev) \<and> timeoutMs \<le> elapsedOf evs \<longrightarrow>
      pd_error (pdRun evs (postDetailEffect e)) = Some ''Post not found''
      \<and> \<not> pd_loading (pdRun evs (postDetailEffect e)))
   \<and> (started e \<and> (\<forall>ev \<in> set evs1. silent ev) \<and> elapsedOf evs1 < timeoutMs
        \<and> subscribed ch \<and> soul \<noteq> [] \<and> \<not> (truthy postData \<and> typeofObject postData) \<longrightarrow>
      pd_error (pdRun (evs1 @ [Deliver ch (VStr soul), PostData postData]) (postDetailEffect e))
        = Some ''Post data not found''
      \<and> pd_elapsed (pdRun (evs1 @ [Deliver ch (VStr soul), PostData postData])
          (postDetailEffect e)) < timeoutMs)
   \<and> timeoutMs = 8000"
proof -
  have a: "pd_error (pdRun evs (postDetailEffect e)) = Some ''Post not found'' \<longrightarrow>
      timeoutMs \<le> pd_elapsed (pdRun evs (postDetailEffect e))"
    using timelyError_run[OF timelyError_effect, of evs e] by (simp add: timelyError_def)
  have b: "elapsedOf evs1 < timeoutMs \<and> subscribed ch \<and> soul \<noteq> [] \<longrightarrow>
      pd_error (pdRun (evs1 @ Deliver ch (VStr soul) # evs2) (postDetailEffect e))
        \<noteq> Some ''Post not found''"
    using delivered_in_time by blast
  have c: "started e \<and> (\<forall>ev \<in> set evs. silent ev) \<and> timeoutMs \<le> elapsedOf evs \<longrightarrow>
      pd_error (pdRun evs (postDetailEffect e)) = Some ''Post not found''
      \<and> \<not> pd_loading (pdRun evs (postDetailEffect e))"
  proof
    assume h: "started e \<and> (\<forall>ev \<in> set evs. silent ev) \<and> timeoutMs \<le> elapsedOf evs"
    then have w: "waiting (postDetailEffect e)" by (simp add: waiting_effect)
    have "timedOut (pdRun evs (postDetailEffect e))"
      using h w by (intro silence_times_out) auto
    then show "pd_error (pdRun evs (postDetailEffect e)) = Some ''Post not found''
      \<and> \<not> pd_loading (pdRun evs (postDetailEffect e))"
      by (simp add: timedOut_def)
  qed
  have d: "started e \<and> (\<forall>ev \<in> set evs1. silent ev) \<and> elapsedOf evs1 < timeoutMs
        \<and> subscribed ch \<and> soul \<noteq> [] \<and> \<not> (truthy postData \<and> typeofObject postData) \<longrightarrow>
      pd_error (pdRun (evs1 @ [Deliver ch (VStr soul), PostData postData]) (postDetailEffect e))
        = Some ''Post data not found''
      \<and> pd_elapsed (pdRun (evs1 @ [Deliver ch (VStr soul), PostData postData])
          (postDetailEffect e)) < timeoutMs"
    using data_not_found by blast
  from a b c d show ?thesis by (simp add: timeoutMs_def)
qed


theorem not_found_after_timeout_witness:
  "pd_error (pdRun [Deliver HashTable VNull, Elapse 5000, Elapse 3000] (postDetailEffect readyEnv))
     = Some ''Post not found''
   \<and> \<not> pd_loading (pdRun [Deliver HashTable VNull, Elapse 5000, Elapse 3000]
         (postDetailEffect readyEnv))
   \<and> pd_error (pdRun ([Elapse 3000] @ Deliver (TimelineDay 2) (VStr ''soul1'') # [Elapse 6000])
        (postDetailEffect readyEnv)) \<noteq> Some ''Post not found''"
proof -
  have pre: "started readyEnv
      \<and> silent (Deliver HashTable VNull) \<and> silent (Elapse 5000) \<and> silent (Elapse 3000)
      \<and> timeoutMs \<le> elapsedOf [Deliver HashTable VNull, Elapse 5000, Elapse 3000]
      \<and> elapsedOf [Elapse 3000] < timeoutMs \<and> subscribed (TimelineDay 2)"
    by code_simp
  from not_found_after_timeout[of "[Deliver HashTable VNull, Elapse 5000, Elapse 3000]" readyEnv
      "[Elapse 3000]" "TimelineDay 2" "''soul1''" "[Elapse 6000]" VUndef] pre
  show ?thesis by simp
qed

text \<open>
  The claim as it was stated fails on a soul whose payload is missing: the soul is
  delivered at once, the read of the payload answers \<open>undefined\<close>, and the page reports
  \<open>Post data not found\<close> with no time elapsed and the timeout still pending.
\<close>

theorem payload_missing_is_immediate:
  "pd_error (pdRun [Deliver HashTable (VStr ''soul1''), PostData VUndef] (postDetailEffect readyEnv))
     = Some ''Post data not found''
   \<and> \<not> pd_loading (pdRun [Deliver HashTable (VStr ''soul1''), PostData VUndef]
         (postDetailEffect readyEnv))
   \<and> pd_elapsed (pdRun [Deliver HashTable (VStr ''soul1''), PostData VUndef]
        (postDetailEffect readyEnv)) = 0
   \<and> pd_timer (pdRun [Deliver HashTable (VStr ''soul1''), PostData VUndef]
        (postDetailEffect readyEnv))"
  by code_simp

end
